(* ===== verification/Prelude.thy ===== *)
theory Prelude
  imports Complex_Main "HOL-Library.Word"
begin

text \<open>
  Shared vocabulary of the CIFAR-10 harness model: the numpy element types as
  machine words, the error values that stand for the exceptions the script and
  its collaborators raise, the bind of the error-sum used to thread them, and the
  list lemmas on fixed-width chunking (\<open>split_n\<close>) that both the shard decoder and
  the tensor reshape are built from.
\<close>

section \<open>Types of the model\<close>

text \<open>numpy \<open>uint8\<close> (pixels and label bytes) and \<open>int64\<close>/\<open>intp\<close> (argmax results,
  differences, the \<open>np.where\<close> mask).\<close>

type_synonym u8 = "8 word"
type_synonym i64 = "64 word"

text \<open>A 4-dimensional array \<open>[sample, channel, row, column]\<close> as nested lists, and
  its shape tuple as in \<open>arr.reshape((n, c, h, w))\<close>.\<close>

type_synonym 'a tensor4 = "'a list list list list"
type_synonym shape4 = "nat \<times> nat \<times> nat \<times> nat"

text \<open>The exceptions of the run. \<open>ShapeMismatch\<close> is numpy's \<open>ValueError\<close> of
  \<open>reshape\<close>, \<open>BroadcastMismatch\<close> the \<open>ValueError\<close> of an elementwise operation on
  arrays of incompatible lengths, \<open>EmptyArgmax\<close> the \<open>ValueError\<close> of \<open>argmax\<close> over an
  empty axis; the loader's two errors, the design's \<open>LengthMismatchError\<close> of the
  accuracy computation and the collaborator's errors are named as in the design;
  \<open>ModuleNotFound\<close> is Python's \<open>ModuleNotFoundError\<close> of an \<open>import\<close>.\<close>

datatype error =
    DatasetNotFound string
  | CorruptShard string
  | ShapeMismatch
  | BroadcastMismatch nat nat
  | LengthMismatch nat nat
  | EmptyArgmax
  | CollaboratorError string
  | ModuleNotFound string

named_theorems layout_simps "index arithmetic of the chunked layouts"

section \<open>Definitions\<close>

text \<open>The bind of the error-sum: an exception ends the computation.\<close>

definition ebind :: "'e + 'a \<Rightarrow> ('a \<Rightarrow> 'e + 'b) \<Rightarrow> 'e + 'b" where
  "ebind r f = (case r of Inl e \<Rightarrow> Inl e | Inr x \<Rightarrow> f x)"

text \<open>Applying a fallible operation to every element, stopping at the first error,
  as a vectorised numpy call that raises does.\<close>

primrec map_err :: "('a \<Rightarrow> 'e + 'b) \<Rightarrow> 'a list \<Rightarrow> 'e + 'b list" where
  "map_err f [] = Inr []"
| "map_err f (x # xs) = ebind (f x) (\<lambda>y. ebind (map_err f xs) (\<lambda>ys. Inr (y # ys)))"

text \<open>\<open>split_n n k xs\<close> cuts \<open>n\<close> consecutive pieces of width \<open>k\<close> off \<open>xs\<close>: the
  row-major reading of a flat buffer as an \<open>n \<times> k\<close> array.\<close>

primrec split_n :: "nat \<Rightarrow> nat \<Rightarrow> 'a list \<Rightarrow> 'a list list" where
  "split_n 0 k xs = []"
| "split_n (Suc n) k xs = take k xs # split_n n k (drop k xs)"

text \<open>Position of the first occurrence of \<open>x\<close> in a list (its length if absent).\<close>

primrec index_of :: "'a \<Rightarrow> 'a list \<Rightarrow> nat" where
  "index_of x [] = 0"
| "index_of x (y # ys) = (if y = x then 0 else Suc (index_of x ys))"

section \<open>Lemmas on the error-sum\<close>

lemma ebind_Inl [simp]: "ebind (Inl e) f = Inl e"
  by (simp add: ebind_def)

lemma ebind_Inr [simp]: "ebind (Inr x) f = f x"
  by (simp add: ebind_def)

lemma ebind_eq_Inr: "ebind r f = Inr y \<longleftrightarrow> (\<exists>x. r = Inr x \<and> f x = Inr y)"
  by (cases r) simp_all

lemma ebind_eq_Inl: "ebind r f = Inl e \<longleftrightarrow> r = Inl e \<or> (\<exists>x. r = Inr x \<and> f x = Inl e)"
  by (cases r) simp_all

lemma map_err_Inr_length: "map_err f xs = Inr ys \<Longrightarrow> length ys = length xs"
  by (induction xs arbitrary: ys) (auto simp: ebind_eq_Inr)

lemma map_err_Inr_nth:
  "map_err f xs = Inr ys \<Longrightarrow> i < length xs \<Longrightarrow> f (xs ! i) = Inr (ys ! i)"
proof (induction xs arbitrary: ys i)
  case Nil
  then show ?case by simp
next
  case (Cons x xs)
  then obtain y ys' where "f x = Inr y" "map_err f xs = Inr ys'" "ys = y # ys'"
    by (auto simp: ebind_eq_Inr)
  with Cons show ?case by (cases i) auto
qed

lemma map_err_all_Inr:
  "(\<And>x. x \<in> set xs \<Longrightarrow> f x = Inr (g x)) \<Longrightarrow> map_err f xs = Inr (map g xs)"
  by (induction xs) simp_all

lemma map_err_Inl_D: "map_err f xs = Inl e \<Longrightarrow> \<exists>x \<in> set xs. f x = Inl e"
proof (induction xs)
  case Nil
  then show ?case by simp
next
  case (Cons x xs)
  then show ?case by (cases "f x"; cases "map_err f xs") auto
qed

lemma map_err_Inl_iff: "(\<exists>e. map_err f xs = Inl e) \<longleftrightarrow> (\<exists>x \<in> set xs. \<exists>e. f x = Inl e)"
proof (induction xs)
  case Nil
  then show ?case by simp
next
  case (Cons x xs)
  then show ?case by (cases "f x"; cases "map_err f xs") auto
qed

lemma map_err_Inr_iff: "(\<exists>ys. map_err f xs = Inr ys) \<longleftrightarrow> (\<forall>x \<in> set xs. \<exists>y. f x = Inr y)"
proof (induction xs)
  case Nil
  then show ?case by simp
next
  case (Cons x xs)
  then show ?case by (cases "f x"; cases "map_err f xs") auto
qed

lemma map_err_append:
  "map_err f (xs @ ys) = ebind (map_err f xs) (\<lambda>as. ebind (map_err f ys) (\<lambda>bs. Inr (as @ bs)))"
proof (induction xs)
  case Nil
  then show ?case by (cases "map_err f ys") simp_all
next
  case (Cons x xs)
  then show ?case by (cases "f x"; cases "map_err f xs"; cases "map_err f ys") simp_all
qed

text \<open>A list with a first element satisfying \<open>Q\<close>, all elements before it satisfying
  \<open>R\<close>, split at its head.\<close>

lemma ex_split_Cons:
  "(\<exists>pre x post. a # xs = pre @ x # post \<and> (\<forall>y \<in> set pre. R y) \<and> Q x) \<longleftrightarrow>
   Q a \<or> (R a \<and> (\<exists>pre x post. xs = pre @ x # post \<and> (\<forall>y \<in> set pre. R y) \<and> Q x))"
  (is "?l \<longleftrightarrow> ?r")
proof
  assume ?l
  then obtain pre x post where "a # xs = pre @ x # post" "\<forall>y \<in> set pre. R y" "Q x" by blast
  then show ?r by (cases pre) auto
next
  assume ?r
  then show ?l
  proof
    assume "Q a"
    then show ?l by (intro exI [of _ "[]"]) simp
  next
    assume "R a \<and> (\<exists>pre x post. xs = pre @ x # post \<and> (\<forall>y \<in> set pre. R y) \<and> Q x)"
    then obtain pre x post where "R a" "xs = pre @ x # post" "\<forall>y \<in> set pre. R y" "Q x" by blast
    then show ?l by (intro exI [of _ "a # pre"]) auto
  qed
qed

text \<open>The error of a fail-fast map is the error of the first element that fails.\<close>

lemma map_err_Inl_first:
  "map_err f xs = Inl e \<longleftrightarrow>
     (\<exists>pre x post. xs = pre @ x # post \<and> (\<forall>y \<in> set pre. \<exists>v. f y = Inr v) \<and> f x = Inl e)"
proof (induction xs)
  case Nil
  then show ?case by simp
next
  case (Cons a xs)
  show ?case
    unfolding ex_split_Cons Cons.IH [symmetric]
    by (cases "f a"; cases "map_err f xs") simp_all
qed

section \<open>Fixed-width chunking\<close>

lemma length_split_n [simp]: "length (split_n n k xs) = n"
  by (induction n arbitrary: xs) simp_all

lemma split_n_nth: "i < n \<Longrightarrow> split_n n k xs ! i = take k (drop (i * k) xs)"
proof (induction n arbitrary: xs i)
  case 0
  then show ?case by simp
next
  case (Suc n)
  then show ?case by (cases i) (simp_all add: add.commute)
qed

lemma index_lt [layout_simps]: "a < n \<Longrightarrow> b < k \<Longrightarrow> a * k + b < n * (k::nat)"
proof -
  assume "a < n" "b < k"
  then have "a * k + b < Suc a * k" by simp
  also from \<open>a < n\<close> have "\<dots> \<le> n * k" by (intro mult_le_mono1) simp
  finally show ?thesis .
qed

lemma split_n_piece_length:
  "n * k \<le> length xs \<Longrightarrow> ys \<in> set (split_n n k xs) \<Longrightarrow> length ys = k"
proof (induction n arbitrary: xs)
  case 0
  then show ?case by simp
next
  case (Suc n)
  have "n * k \<le> length (drop k xs)" using Suc.prems(1) by simp
  note IH = Suc.IH [OF this]
  from Suc.prems(1,2) IH show ?case by auto
qed

lemma split_n_nth_nth [layout_simps]:
  assumes "i < n" "j < k" "n * k \<le> length xs"
  shows "split_n n k xs ! i ! j = xs ! (i * k + j)"
proof -
  have "i * k + j < length xs" using index_lt [OF assms(1,2)] assms(3) by simp
  with assms(1,2) show ?thesis by (simp add: split_n_nth)
qed

lemma concat_split_n: "length xs = n * k \<Longrightarrow> concat (split_n n k xs) = xs"
proof (induction n arbitrary: xs)
  case 0
  then show ?case by simp
next
  case (Suc n)
  then have "concat (split_n n k (drop k xs)) = drop k xs" by simp
  then show ?case by simp
qed

lemma split_n_concat:
  "(\<And>y. y \<in> set ys \<Longrightarrow> length y = k) \<Longrightarrow> split_n (length ys) k (concat ys) = ys"
  by (induction ys) simp_all

lemma length_concat_const:
  "(\<And>y. y \<in> set ys \<Longrightarrow> length y = k) \<Longrightarrow> length (concat ys) = length ys * k"
  by (induction ys) simp_all

section \<open>First occurrence\<close>

lemma index_of_lt: "x \<in> set xs \<Longrightarrow> index_of x xs < length xs"
  by (induction xs) auto

lemma nth_index_of: "x \<in> set xs \<Longrightarrow> xs ! index_of x xs = x"
  by (induction xs) auto

lemma index_of_first: "j < index_of x xs \<Longrightarrow> xs ! j \<noteq> x"
proof (induction xs arbitrary: j)
  case Nil
  then show ?case by simp
next
  case (Cons y ys)
  then show ?case by (cases j) (auto split: if_splits)
qed

lemma index_of_append_in: "x \<in> set xs \<Longrightarrow> index_of x (xs @ ys) = index_of x xs"
  by (induction xs) auto

lemma index_of_append_notin: "x \<notin> set xs \<Longrightarrow> index_of x (xs @ ys) = length xs + index_of x ys"
  by (induction xs) auto

section \<open>Word facts for the numpy dtype promotions\<close>

text \<open>Widening a \<open>uint8\<close> to \<open>int64\<close> keeps its value; a count below \<open>2^63\<close> read
  back from \<open>int64\<close> with its sign is the count itself.\<close>

lemma unat_ucast_u8_i64 [simp]: "unat (ucast (l :: u8) :: i64) = unat l"
proof -
  have "unat l < 2 ^ 8" using unsigned_less [of l] by simp
  then have "unat l < 2 ^ 64" by simp
  then show ?thesis by (simp add: unsigned_ucast_eq take_bit_nat_eq_self_iff)
qed

lemma ucast_eq_word_of_nat_iff:
  "p < 2 ^ 64 \<Longrightarrow> (ucast (l :: u8) :: i64) = word_of_nat p \<longleftrightarrow> unat l = p"
  by (simp add: word_unat_eq_iff [of "ucast l"] unat_of_nat)

lemma i64_diff_eq_0_iff:
  "p < 2 ^ 64 \<Longrightarrow> (ucast (l :: u8) :: i64) - word_of_nat p = 0 \<longleftrightarrow> unat l = p"
  by (simp add: ucast_eq_word_of_nat_iff)

lemma sint_i64_of_nat: "k < 2 ^ 63 \<Longrightarrow> sint (word_of_nat k :: i64) = int k"
proof -
  assume k: "k < 2 ^ 63"
  have "(word_of_nat k :: i64) = word_of_int (int k)" by simp
  then show ?thesis using k by (simp only: int_word_sint) simp
qed

end
