(* ===== verification/Reshape.thy ===== *)
theory Reshape
  imports Prelude
begin

text \<open>
  The layout transform of \<open>main\<close> (src/python/experiments/cifar_nn/main.py, lines
  13--14): \<open>train_images.reshape((50000, 3, 32, 32))\<close> and
  \<open>test_images.reshape((10000, 3, 32, 32))\<close>. numpy's C-order reshape reads the
  array's elements in row-major order and cuts them into the requested shape, raising
  \<open>ValueError\<close> when the element counts differ. The input of \<open>main\<close> is a 2-D
  \<open>uint8\<close> array (one flat pixel buffer per sample), whose row-major element order is
  the concatenation of its rows.
\<close>

section \<open>Definitions\<close>

definition np_reshape4 :: "'a list \<Rightarrow> shape4 \<Rightarrow> error + 'a tensor4" where
  "np_reshape4 xs shp =
     (case shp of (n, c, h, w) \<Rightarrow>
        if length xs = n * c * h * w
        then Inr (map (map (split_n h w)) (map (split_n c (h * w)) (split_n n (c * h * w) xs)))
        else Inl ShapeMismatch)"

definition reshape_rows :: "'a list list \<Rightarrow> shape4 \<Rightarrow> error + 'a tensor4" where
  "reshape_rows rows shp = np_reshape4 (concat rows) shp"

text \<open>The shape of a nested-list tensor, and its row-major flattening.\<close>

definition has_shape4 :: "shape4 \<Rightarrow> 'a tensor4 \<Rightarrow> bool" where
  "has_shape4 shp t =
     (case shp of (n, c, h, w) \<Rightarrow>
        length t = n \<and>
        list_all (\<lambda>s. length s = c \<and>
          list_all (\<lambda>ch. length ch = h \<and> list_all (\<lambda>r. length r = w) ch) s) t)"

definition flatten4 :: "'a tensor4 \<Rightarrow> 'a list" where
  "flatten4 t = concat (map (\<lambda>s. concat (map concat s)) t)"

section \<open>Lemmas\<close>

lemma np_reshape4_Inr_iff:
  "np_reshape4 xs (n, c, h, w) = Inr t \<longleftrightarrow>
     length xs = n * c * h * w \<and>
     t = map (map (split_n h w)) (map (split_n c (h * w)) (split_n n (c * h * w) xs))"
  by (auto simp: np_reshape4_def)

lemma np_reshape4_Inl_iff:
  "np_reshape4 xs (n, c, h, w) = Inl e \<longleftrightarrow> length xs \<noteq> n * c * h * w \<and> e = ShapeMismatch"
  by (auto simp: np_reshape4_def)

lemma length_np_reshape4:
  "np_reshape4 xs (n, c, h, w) = Inr t \<Longrightarrow> length t = n"
  by (auto simp: np_reshape4_Inr_iff)

lemma reshape_rows_Inr:
  "(\<And>r. r \<in> set rows \<Longrightarrow> length r = c * h * w) \<Longrightarrow>
   \<exists>t. reshape_rows rows (length rows, c, h, w) = Inr t"
  using length_concat_const [of rows "c * h * w"]
  by (simp add: reshape_rows_def np_reshape4_def mult.assoc)

lemma reshape_sample_piece:
  assumes "length xs = n * (c * h * w)" "s < n"
  shows "length (split_n n (c * h * w) xs ! s) = c * (h * w)"
  using assms split_n_piece_length [of n "c * h * w" xs] by (simp add: mult.assoc)

lemma reshape_channel_piece:
  assumes "length b = c * (h * w)" "ch < c"
  shows "length (split_n c (h * w) b ! ch) = h * w"
  using assms split_n_piece_length [of c "h * w" b] by simp

text \<open>C13 (type): a successful reshape of lines 13--14 produces a tensor of exactly
  the requested shape \<open>(n, c, h, w)\<close>.\<close>

theorem np_reshape4_shape:
  "np_reshape4 xs (n, c, h, w) = Inr t \<Longrightarrow> has_shape4 (n, c, h, w) t"
proof -
  assume "np_reshape4 xs (n, c, h, w) = Inr t"
  then have len: "length xs = n * (c * h * w)"
    and t: "t = map (map (split_n h w)) (map (split_n c (h * w)) (split_n n (c * h * w) xs))"
    by (auto simp: np_reshape4_Inr_iff mult.assoc)
  have sample: "length b = c * (h * w)" if "b \<in> set (split_n n (c * h * w) xs)" for b
    using split_n_piece_length [OF _ that] len by (simp add: mult.assoc)
  have channel: "length p = h * w" if "length b = c * (h * w)" "p \<in> set (split_n c (h * w) b)" for b p
    using split_n_piece_length [OF _ that(2)] that(1) by simp
  have row: "length r = w" if "length p = h * w" "r \<in> set (split_n h w p)" for p r
    using split_n_piece_length [OF _ that(2)] that(1) by simp
  show ?thesis
    unfolding has_shape4_def t
    by (auto simp: list_all_iff dest!: sample channel row)
qed

text \<open>C5 (functional): the reshape is numpy's C-order view: the element at
  \<open>[s, ch, y, x]\<close> of the tensor is the flat buffer's element at
  \<open>s*c*h*w + ch*h*w + y*w + x\<close>.\<close>

theorem np_reshape4_index:
  assumes r: "np_reshape4 xs (n, c, h, w) = Inr t"
    and idx: "s < n" "ch < c" "y < h" "x < w"
  shows "t ! s ! ch ! y ! x = xs ! (s * (c * h * w) + ch * (h * w) + y * w + x)"
proof -
  from r have len: "length xs = n * (c * h * w)"
    and t: "t = map (map (split_n h w)) (map (split_n c (h * w)) (split_n n (c * h * w) xs))"
    by (auto simp: np_reshape4_Inr_iff mult.assoc)
  define b where "b = split_n n (c * h * w) xs ! s"
  define p where "p = split_n c (h * w) b ! ch"
  have lb: "length b = c * (h * w)"
    unfolding b_def using reshape_sample_piece [OF len idx(1)] .
  have lp: "length p = h * w"
    unfolding p_def using reshape_channel_piece [OF lb idx(2)] .
  have "t ! s ! ch ! y ! x = p ! (y * w + x)"
    using idx lp by (simp add: t b_def p_def layout_simps)
  also have "\<dots> = b ! (ch * (h * w) + (y * w + x))"
    unfolding p_def using idx lb index_lt [OF idx(3,4)]
    by (simp add: layout_simps)
  also have "\<dots> = xs ! (s * (c * h * w) + (ch * (h * w) + (y * w + x)))"
    unfolding b_def using idx len index_lt [OF idx(2) index_lt [OF idx(3,4)]]
    by (simp add: layout_simps mult.assoc)
  finally show ?thesis by (simp add: add.assoc)
qed

lemma concat_rows_of_plane:
  "length p = h * w \<Longrightarrow> concat (split_n h w p) = p"
  by (rule concat_split_n)

lemma concat_planes_of_sample:
  assumes "length b = c * (h * w)"
  shows "concat (map concat (map (split_n h w) (split_n c (h * w) b))) = b"
proof -
  have "map concat (map (split_n h w) (split_n c (h * w) b)) = split_n c (h * w) b"
    using split_n_piece_length [of c "h * w" b] assms
    by (simp add: map_idI concat_rows_of_plane)
  then show ?thesis using assms by (simp add: concat_split_n)
qed

text \<open>C11 (roundtrip): flattening the reshaped tensor in row-major order gives back
  the input buffer: the reshape neither drops, pads nor reorders elements.\<close>

theorem np_reshape4_flatten:
  "np_reshape4 xs (n, c, h, w) = Inr t \<Longrightarrow> flatten4 t = xs"
proof -
  assume "np_reshape4 xs (n, c, h, w) = Inr t"
  then have len: "length xs = n * (c * h * w)"
    and t: "t = map (map (split_n h w)) (map (split_n c (h * w)) (split_n n (c * h * w) xs))"
    by (auto simp: np_reshape4_Inr_iff mult.assoc)
  have piece: "concat (map concat (map (split_n h w) (split_n c (h * w) b))) = b"
    if "b \<in> set (split_n n (c * h * w) xs)" for b
    using split_n_piece_length [OF _ that] len concat_planes_of_sample by (simp add: mult.assoc)
  have "map (\<lambda>s. concat (map concat s)) t = split_n n (c * h * w) xs"
    unfolding t map_map by (rule map_idI) (simp add: piece [simplified])
  then show ?thesis using len by (simp add: flatten4_def concat_split_n)
qed

lemma has_shape4_sample_length:
  "has_shape4 (n, c, h, w) t \<Longrightarrow> s \<in> set t \<Longrightarrow> length (concat (map concat s)) = c * (h * w)"
proof -
  assume sh: "has_shape4 (n, c, h, w) t" and s: "s \<in> set t"
  then have "length (concat p) = h * w" if "p \<in> set s" for p
    using that by (auto simp: has_shape4_def list_all_iff length_concat_const)
  then have "length (concat (map concat s)) = length s * (h * w)"
    using length_concat_const [of "map concat s" "h * w"] by auto
  with sh s show ?thesis by (auto simp: has_shape4_def list_all_iff)
qed

text \<open>C12 (roundtrip): reshaping the row-major flattening of any tensor of shape
  \<open>(n, c, h, w)\<close> to that shape gives the tensor back.\<close>

theorem np_reshape4_of_flatten:
  "has_shape4 (n, c, h, w) t \<Longrightarrow> np_reshape4 (flatten4 t) (n, c, h, w) = Inr t"
proof -
  assume sh: "has_shape4 (n, c, h, w) t"
  have samples: "length (concat (map concat s)) = c * (h * w)" if "s \<in> set t" for s
    using has_shape4_sample_length [OF sh that] .
  have lt: "length t = n" using sh by (simp add: has_shape4_def)
  have len: "length (flatten4 t) = n * (c * h * w)"
    unfolding flatten4_def using lt samples
    by (subst length_concat_const [where k = "c * (h * w)"]) (auto simp: mult.assoc)
  have split1: "split_n n (c * h * w) (flatten4 t) = map (\<lambda>s. concat (map concat s)) t"
    unfolding flatten4_def
    using split_n_concat [of "map (\<lambda>s. concat (map concat s)) t" "c * (h * w)"] lt samples
    by (auto simp: mult.assoc)
  have inner: "map (split_n h w) (split_n c (h * w) (concat (map concat s))) = s"
    if "s \<in> set t" for s
  proof -
    have planes: "\<And>p. p \<in> set s \<Longrightarrow> length p = h \<and> (\<forall>r \<in> set p. length r = w)"
      using sh that by (auto simp: has_shape4_def list_all_iff)
    have lc: "length s = c" using sh that by (auto simp: has_shape4_def list_all_iff)
    have pl: "length (concat p) = h * w" if "p \<in> set s" for p
      using planes [OF that] length_concat_const [of p w] by auto
    have "split_n c (h * w) (concat (map concat s)) = map concat s"
      using pl lc split_n_concat [of "map concat s" "h * w"] by auto
    moreover have "split_n h w (concat p) = p" if "p \<in> set s" for p
      using planes [OF that] split_n_concat [of p w] by auto
    ultimately show ?thesis by (simp add: map_idI)
  qed
  show ?thesis
    using len split1 inner
    by (simp add: np_reshape4_Inr_iff mult.assoc map_idI)
qed

section \<open>Witnesses\<close>

theorem np_reshape4_shape_witness:
  "\<exists>t. np_reshape4 [0..<24::nat] (2, 3, 2, 2) = Inr t \<and> has_shape4 (2, 3, 2, 2) t"
proof -
  obtain t where t: "np_reshape4 [0..<24::nat] (2, 3, 2, 2) = Inr t"
    by (simp add: np_reshape4_def)
  then have "has_shape4 (2, 3, 2, 2) t" by (rule np_reshape4_shape)
  with t show ?thesis by auto
qed

theorem np_reshape4_index_witness:
  "\<exists>t. np_reshape4 [0..<24::nat] (2, 3, 2, 2) = Inr t \<and> t ! 1 ! 2 ! 1 ! 0 = 22"
proof -
  obtain t where t: "np_reshape4 [0..<24::nat] (2, 3, 2, 2) = Inr t"
    by (simp add: np_reshape4_def)
  have "t ! 1 ! 2 ! 1 ! 0 = [0..<24::nat] ! (1 * (3 * 2 * 2) + 2 * (2 * 2) + 1 * 2 + 0)"
    using np_reshape4_index [OF t] by simp
  with t show ?thesis by auto
qed

theorem np_reshape4_flatten_witness:
  "\<exists>t. np_reshape4 [0..<24::nat] (2, 3, 2, 2) = Inr t \<and> flatten4 t = [0..<24]"
proof -
  obtain t where t: "np_reshape4 [0..<24::nat] (2, 3, 2, 2) = Inr t"
    by (simp add: np_reshape4_def)
  with np_reshape4_flatten [OF t] show ?thesis by auto
qed

theorem np_reshape4_of_flatten_witness:
  "has_shape4 (1, 2, 1, 2) [[[[1, 2 :: nat]], [[3, 4]]]] \<and>
   np_reshape4 (flatten4 [[[[1, 2 :: nat]], [[3, 4]]]]) (1, 2, 1, 2) = Inr [[[[1, 2]], [[3, 4]]]]"
proof -
  have h: "has_shape4 (1, 2, 1, 2) [[[[1, 2 :: nat]], [[3, 4]]]]"
    by (simp add: has_shape4_def)
  with np_reshape4_of_flatten [OF h] show ?thesis by simp
qed

end
