(* ===== verification/Scoring.thy ===== *)
theory Scoring
  imports Prelude "HOL-Library.Word"
begin

text \<open>
  The scoring tail of \<open>main\<close> (src/python/experiments/cifar_nn/main.py, lines
  25--29):
  \<^verbatim>\<open>
    res = np.argmax(res, axis=1)
    diff = test_labels - res
    sim = np.where(diff == 0, 1, 0)
    accuracy = np.sum(sim)/sim.shape[0]
  \<close>
  \<open>np.argmax\<close> along axis 1 scans each row of the score matrix once, keeping the
  first strict maximum (numpy's \<open>argmax\<close> loop for ordered element types; scores are
  taken from any linear order, and \<open>Float_Scores\<close> shows that numpy's loop for
  \<open>float32\<close> scores with NaN is this one under the order with NaN last). \<open>test_labels\<close> is a \<open>uint8\<close>
  array and \<open>res\<close> an \<open>intp\<close> array, so the subtraction promotes both to \<open>int64\<close>
  and broadcasts a length-1 operand; the mask and its sum are \<open>int64\<close>; the final
  true division of an \<open>int64\<close> by an \<open>int\<close> yields a float, NaN for \<open>0/0\<close>.
\<close>

section \<open>Definitions\<close>

subsection \<open>argmax along axis 1\<close>

fun argmax_from :: "'a::linorder \<Rightarrow> nat \<Rightarrow> nat \<Rightarrow> 'a list \<Rightarrow> nat" where
  "argmax_from mp mi i [] = mi"
| "argmax_from mp mi i (x # xs) =
     (if mp < x then argmax_from x i (Suc i) xs else argmax_from mp mi (Suc i) xs)"

definition np_argmax :: "'a::linorder list \<Rightarrow> error + nat" where
  "np_argmax row = (case row of [] \<Rightarrow> Inl EmptyArgmax | x # xs \<Rightarrow> Inr (argmax_from x 0 1 xs))"

definition argmax_rows :: "'a::linorder list list \<Rightarrow> error + nat list" where
  "argmax_rows scores = map_err np_argmax scores"

text \<open>Reference: the first position holding the maximum of the row.\<close>

definition first_max :: "'a::linorder list \<Rightarrow> nat" where
  "first_max row = index_of (Max (set row)) row"

definition argmax_ref :: "'a::linorder list \<Rightarrow> error + nat" where
  "argmax_ref row = (if row = [] then Inl EmptyArgmax else Inr (first_max row))"

subsection \<open>Subtraction with broadcasting, mask, sum, true division\<close>

definition np_sub :: "i64 list \<Rightarrow> i64 list \<Rightarrow> error + i64 list" where
  "np_sub a b =
     (if length a = length b then Inr (map (\<lambda>(x, y). x - y) (zip a b))
      else if length a = 1 then Inr (map (\<lambda>y. hd a - y) b)
      else if length b = 1 then Inr (map (\<lambda>x. x - hd b) a)
      else Inl (BroadcastMismatch (length a) (length b)))"

definition np_where_eq0 :: "i64 list \<Rightarrow> i64 list" where
  "np_where_eq0 d = map (\<lambda>x. if x = 0 then 1 else 0) d"

definition np_sum :: "i64 list \<Rightarrow> i64" where
  "np_sum xs = sum_list xs"

text \<open>A float result of Python's true division: the exact quotient (the rounding
  to the nearest double is not modelled), or NaN/infinity on a zero divisor.\<close>

datatype fval = Fval rat | NaN | PosInf | NegInf

definition true_div :: "int \<Rightarrow> nat \<Rightarrow> fval" where
  "true_div a n =
     (if n = 0 then (if a = 0 then NaN else if 0 < a then PosInf else NegInf)
      else Fval (of_int a / of_nat n))"

definition score :: "u8 list \<Rightarrow> 'a::linorder list list \<Rightarrow> error + fval" where
  "score test_labels raw =
     ebind (argmax_rows raw) (\<lambda>res.
     ebind (np_sub (map ucast test_labels) (map word_of_nat res)) (\<lambda>diff.
       let sim = np_where_eq0 diff
       in Inr (true_div (sint (np_sum sim)) (length sim))))"

subsection \<open>The design's accuracy (section 4.2 of the design)\<close>

definition matches :: "nat list \<Rightarrow> nat list \<Rightarrow> nat" where
  "matches preds labels = length (filter (\<lambda>(p, l). p = l) (zip preds labels))"

definition spec_accuracy :: "nat list \<Rightarrow> nat list \<Rightarrow> error + rat" where
  "spec_accuracy preds labels =
     (if length preds \<noteq> length labels then Inl (LengthMismatch (length preds) (length labels))
      else Inr (of_nat (matches preds labels) / of_nat (length labels)))"

section \<open>argmax\<close>

lemma argmax_from_first_max:
  "pre \<noteq> [] \<Longrightarrow> mp = Max (set pre) \<Longrightarrow> mi = index_of mp pre \<Longrightarrow>
   argmax_from mp mi (length pre) xs = first_max (pre @ xs)"
proof (induction xs arbitrary: pre mp mi)
  case Nil
  then show ?case by (simp add: first_max_def)
next
  case (Cons x xs)
  have fin: "finite (set pre)" "set pre \<noteq> {}" using Cons.prems(1) by auto
  have mx: "Max (set (pre @ [x])) = max x mp"
    using Cons.prems(2) fin by (simp add: Max_insert)
  show ?case
  proof (cases "mp < x")
    case True
    have notin: "x \<notin> set pre" using True Cons.prems(2) fin by auto
    have "argmax_from x (length pre) (length (pre @ [x])) xs = first_max ((pre @ [x]) @ xs)"
      by (rule Cons.IH) (use True mx notin in \<open>simp_all add: index_of_append_notin\<close>)
    with True show ?thesis by simp
  next
    case False
    have mem: "mp \<in> set pre" using Cons.prems(2) fin by simp
    have "x \<le> mp" using False by (simp only: not_less)
    then have mx': "Max (set (pre @ [x])) = mp" using mx by (simp only: max_absorb2)
    have "argmax_from mp mi (length (pre @ [x])) xs = first_max ((pre @ [x]) @ xs)"
      by (rule Cons.IH) (use mx' mem Cons.prems in \<open>simp_all add: index_of_append_in\<close>)
    with False show ?thesis by simp
  qed
qed

lemma first_max_props:
  assumes "row \<noteq> []"
  shows "first_max row < length row"
    and "j < length row \<Longrightarrow> row ! j \<le> row ! first_max row"
    and "j < first_max row \<Longrightarrow> row ! j < row ! first_max row"
proof -
  have mem: "Max (set row) \<in> set row" using assms by simp
  show "first_max row < length row"
    unfolding first_max_def using mem by (rule index_of_lt)
  have at: "row ! first_max row = Max (set row)"
    unfolding first_max_def using mem by (rule nth_index_of)
  show "row ! j \<le> row ! first_max row" if "j < length row"
    using that by (simp add: at)
  show "row ! j < row ! first_max row" if "j < first_max row"
  proof -
    have "row ! j \<noteq> Max (set row)"
      using index_of_first [OF that [unfolded first_max_def]] .
    moreover have "j < length row"
      using that \<open>first_max row < length row\<close> by simp
    ultimately show ?thesis by (simp add: at order_le_neq_trans)
  qed
qed

text \<open>The scan is numpy's argmax: it returns the first position of the maximum.\<close>

lemma np_argmax_ref: "np_argmax row = argmax_ref row"
proof (cases row)
  case Nil
  then show ?thesis by (simp add: np_argmax_def argmax_ref_def)
next
  case (Cons x xs)
  have "argmax_from x 0 (length [x]) xs = first_max ([x] @ xs)"
    by (rule argmax_from_first_max) simp_all
  with Cons show ?thesis by (simp add: np_argmax_def argmax_ref_def)
qed

text \<open>C14 (functional): \<open>np.argmax\<close> of a row returns a valid index holding a
  maximal score, and every earlier index holds a strictly smaller score (the lowest
  index among the maxima wins).\<close>

theorem np_argmax_first_maximum:
  "np_argmax row = Inr i \<Longrightarrow>
     i < length row \<and> (\<forall>j < length row. row ! j \<le> row ! i) \<and> (\<forall>j < i. row ! j < row ! i)"
  using first_max_props [of row]
  by (auto simp: np_argmax_ref argmax_ref_def split: if_splits)

lemma argmax_rows_Inr:
  "(\<And>row. row \<in> set raw \<Longrightarrow> row \<noteq> []) \<Longrightarrow> argmax_rows raw = Inr (map first_max raw)"
  unfolding argmax_rows_def
  by (rule map_err_all_Inr) (simp add: np_argmax_ref argmax_ref_def)

lemma argmax_rows_Inl:
  "argmax_rows raw = Inl e \<longleftrightarrow> (\<exists>row \<in> set raw. row = []) \<and> e = EmptyArgmax"
proof
  assume "argmax_rows raw = Inl e"
  then obtain row where "row \<in> set raw" "np_argmax row = Inl e"
    unfolding argmax_rows_def by (blast dest: map_err_Inl_D)
  then show "(\<exists>row \<in> set raw. row = []) \<and> e = EmptyArgmax"
    by (auto simp: np_argmax_ref argmax_ref_def split: if_splits)
next
  assume a: "(\<exists>row \<in> set raw. row = []) \<and> e = EmptyArgmax"
  then have "[] \<in> set raw" by auto
  moreover have "np_argmax [] = Inl EmptyArgmax" by (simp add: np_argmax_def)
  ultimately obtain e' where e': "argmax_rows raw = Inl e'"
    using map_err_Inl_iff [of np_argmax raw] unfolding argmax_rows_def by blast
  then obtain row where "row \<in> set raw" "np_argmax row = Inl e'"
    unfolding argmax_rows_def by (blast dest: map_err_Inl_D)
  then have "e' = EmptyArgmax"
    by (auto simp: np_argmax_ref argmax_ref_def split: if_splits)
  with a e' show "argmax_rows raw = Inl e" by simp
qed

section \<open>Mask, sum and division\<close>

lemma length_np_where_eq0 [simp]: "length (np_where_eq0 d) = length d"
  by (simp add: np_where_eq0_def)

lemma np_where_eq0_Nil_iff [simp]: "np_where_eq0 d = [] \<longleftrightarrow> d = []"
  by (simp add: np_where_eq0_def)

lemma np_sum_where_eq0: "np_sum (np_where_eq0 d) = word_of_nat (length (filter (\<lambda>x. x = 0) d))"
  by (induction d) (simp_all add: np_sum_def np_where_eq0_def)

lemma sint_np_sum_where_eq0:
  "length d < 2 ^ 63 \<Longrightarrow> sint (np_sum (np_where_eq0 d)) = int (length (filter (\<lambda>x. x = 0) d))"
proof -
  assume "length d < 2 ^ 63"
  with length_filter_le [of "\<lambda>x. x = 0" d]
  have "length (filter (\<lambda>x. x = 0) d) < 2 ^ 63" by (rule le_less_trans)
  then show ?thesis by (simp add: np_sum_where_eq0 sint_i64_of_nat)
qed

lemma zeros_of_label_diff:
  "length (labels :: u8 list) = length preds \<Longrightarrow> (\<forall>p \<in> set preds. p < 2 ^ 64) \<Longrightarrow>
   length (filter (\<lambda>x. x = 0)
     (map (\<lambda>(x, y). x - y) (zip (map ucast labels :: i64 list) (map word_of_nat preds))))
   = matches preds (map unat labels)"
proof (induction labels preds rule: list_induct2)
  case Nil
  then show ?case by (simp add: matches_def)
next
  case (Cons l ls p ps)
  have "p < 2 ^ 64" using Cons.prems by simp
  then have eq: "(ucast l = (word_of_nat p :: i64)) = (p = unat l)"
    using ucast_eq_word_of_nat_iff [of p l] by auto
  from Cons show ?case by (simp add: matches_def eq)
qed

lemma zeros_of_broadcast_row:
  "p < 2 ^ 64 \<Longrightarrow>
   length (filter (\<lambda>x. x = 0) (map (\<lambda>x. x - word_of_nat p) (map ucast (labels :: u8 list) :: i64 list)))
   = length (filter (\<lambda>l. unat l = p) labels)"
proof -
  assume p: "p < 2 ^ 64"
  show ?thesis by (induction labels) (simp_all add: ucast_eq_word_of_nat_iff [OF p])
qed

lemma np_sub_length: "np_sub a b = Inr d \<Longrightarrow> length d = length a \<or> length d = length b"
  by (auto simp: np_sub_def split: if_splits)

lemma true_div_count:
  "k \<le> m \<Longrightarrow> true_div (int k) m = (if m = 0 then NaN else Fval (of_nat k / of_nat m))"
  by (simp add: true_div_def)

lemma matches_self: "matches xs xs = length xs"
  by (induction xs) (simp_all add: matches_def)

lemma matches_all:
  "length preds = length labels \<Longrightarrow> \<forall>i < length labels. preds ! i = labels ! i \<Longrightarrow>
   matches preds labels = length labels"
  using nth_equalityI [of preds labels] by (simp add: matches_self)

lemma matches_none:
  "\<forall>i < length labels. preds ! i \<noteq> labels ! i \<Longrightarrow> matches preds labels = 0"
  by (auto simp: matches_def filter_empty_conv set_zip)

lemma first_max_bound:
  "\<forall>row \<in> set raw. row \<noteq> [] \<and> length row \<le> 2 ^ 64 \<Longrightarrow> \<forall>p \<in> set (map first_max raw). p < 2 ^ 64"
  using first_max_props(1) by fastforce

section \<open>The score against the design's accuracy\<close>

lemma score_spec_accuracy:
  assumes len: "length raw = length labels" "0 < length labels" "length labels < 2 ^ 63"
    and rows: "\<forall>row \<in> set raw. row \<noteq> [] \<and> length row \<le> 2 ^ 64"
  shows "score labels raw = map_sum id Fval (spec_accuracy (map first_max raw) (map unat labels))"
proof -
  let ?P = "map first_max raw"
  let ?d = "map (\<lambda>(x, y). x - y) (zip (map ucast labels :: i64 list) (map word_of_nat ?P))"
  have am: "argmax_rows raw = Inr ?P"
    using rows by (intro argmax_rows_Inr) auto
  have sub: "np_sub (map ucast labels) (map word_of_nat ?P) = Inr ?d"
    using len(1) by (simp add: np_sub_def)
  have ld: "length ?d = length labels" using len(1) by simp
  have cnt: "length (filter (\<lambda>x. x = 0) ?d) = matches ?P (map unat labels)"
    using len(1) first_max_bound [OF rows] by (intro zeros_of_label_diff) simp_all
  have "sint (np_sum (np_where_eq0 ?d)) = int (matches ?P (map unat labels))"
    using sint_np_sum_where_eq0 [of ?d] ld len(3) cnt by simp
  moreover have "raw \<noteq> []" using len(1,2) by auto
  ultimately show ?thesis
    using am sub ld len by (simp add: score_def true_div_def spec_accuracy_def Let_def)
qed

text \<open>C15 (functional): when every prediction equals its label, the computed
  accuracy is exactly 1.\<close>

corollary score_all_correct:
  assumes "length raw = length labels" "0 < length labels" "length labels < 2 ^ 63"
    and "\<forall>row \<in> set raw. row \<noteq> [] \<and> length row \<le> 2 ^ 64"
    and "\<forall>i < length labels. first_max (raw ! i) = unat (labels ! i)"
  shows "score labels raw = Inr (Fval 1)"
proof -
  have "matches (map first_max raw) (map unat labels) = length labels"
    using matches_all [of "map first_max raw" "map unat labels"] assms(1,5) by simp
  then show ?thesis
    using score_spec_accuracy [OF assms(1-4)] assms(1,2) by (simp add: spec_accuracy_def)
qed

text \<open>C16 (functional): when no prediction equals its label, the computed accuracy
  is exactly 0.\<close>

corollary score_none_correct:
  assumes "length raw = length labels" "0 < length labels" "length labels < 2 ^ 63"
    and "\<forall>row \<in> set raw. row \<noteq> [] \<and> length row \<le> 2 ^ 64"
    and "\<forall>i < length labels. first_max (raw ! i) \<noteq> unat (labels ! i)"
  shows "score labels raw = Inr (Fval 0)"
proof -
  have "matches (map first_max raw) (map unat labels) = 0"
    using matches_none [of "map unat labels" "map first_max raw"] assms(1,5) by simp
  then show ?thesis
    using score_spec_accuracy [OF assms(1-4)] assms(1) by (simp add: spec_accuracy_def)
qed

text \<open>C9 (bounds): for arrays shorter than \<open>2^63\<close> (so that the \<open>int64\<close> sum of the
  mask cannot wrap), a score that is computed is NaN (empty test set) or a value in
  \<open>[0, 1]\<close>.\<close>

theorem score_bounds:
  assumes "length labels < 2 ^ 63" "length raw < 2 ^ 63" "score labels raw = Inr r"
  shows "r = NaN \<or> (\<exists>a. r = Fval a \<and> 0 \<le> a \<and> a \<le> 1)"
proof -
  obtain res d where am: "argmax_rows raw = Inr res"
    and sub: "np_sub (map ucast labels) (map word_of_nat res) = Inr d"
    and r: "r = true_div (sint (np_sum (np_where_eq0 d))) (length d)"
    using assms(3) by (auto simp: score_def ebind_eq_Inr np_where_eq0_def Let_def)
  have "length res = length raw"
    using am unfolding argmax_rows_def by (rule map_err_Inr_length)
  then have ld: "length d < 2 ^ 63"
    using np_sub_length [OF sub] assms(1,2) by auto
  let ?k = "length (filter (\<lambda>x. x = 0) d)"
  have k: "?k \<le> length d" by (rule length_filter_le)
  have "r = true_div (int ?k) (length d)"
    using r sint_np_sum_where_eq0 [OF ld] by simp
  then have "r = (if length d = 0 then NaN else Fval (of_nat ?k / of_nat (length d)))"
    using k by (simp add: true_div_count)
  then show ?thesis using k by auto
qed

text \<open>C8 (error): the scoring lines raise exactly when a score row is empty
  (argmax of an empty axis) or when the label and prediction counts differ and
  neither is 1; a single prediction is broadcast against all labels instead of
  raising the design's length mismatch.\<close>

theorem score_Inl_iff:
  "score labels raw = Inl e \<longleftrightarrow>
     (if \<exists>row \<in> set raw. row = [] then e = EmptyArgmax
      else length labels \<noteq> length raw \<and> length labels \<noteq> 1 \<and> length raw \<noteq> 1 \<and>
           e = BroadcastMismatch (length labels) (length raw))"
proof (cases "\<exists>row \<in> set raw. row = []")
  case True
  then have "argmax_rows raw = Inl EmptyArgmax" by (simp add: argmax_rows_Inl)
  with True show ?thesis by (auto simp: score_def)
next
  case False
  then have "argmax_rows raw = Inr (map first_max raw)" by (intro argmax_rows_Inr) auto
  with False show ?thesis by (auto simp: score_def np_sub_def Let_def)
qed

section \<open>Properties\<close>

text \<open>C2 (refinement): for matching, non-empty arrays below the \<open>int64\<close> bound and
  non-empty score rows, lines 25--29 compute exactly the design's accuracy (count of
  predictions equal to the label over the sample count) applied to the first-maximum
  predictions.\<close>

theorem score_refines_spec:
  assumes "length raw = length labels" "0 < length labels" "length labels < 2 ^ 63"
    and "\<forall>row \<in> set raw. row \<noteq> [] \<and> length row \<le> 2 ^ 64"
  shows "score labels raw = map_sum id Fval (spec_accuracy (map first_max raw) (map unat labels))"
  using assms by (rule score_spec_accuracy)

text \<open>C6 (equivalence): the single-pass scan of \<open>np.argmax\<close> computes the reference
  "first position of the row's maximum", with the same error on an empty row.\<close>

theorem np_argmax_equiv: "np_argmax row = argmax_ref row"
  by (rule np_argmax_ref)

text \<open>C21 (bounds): below \<open>2^63\<close> elements, the \<open>int64\<close> sum of the \<open>np.where\<close> mask
  read with its sign is the number of zero differences; no wrap-around occurs.\<close>

theorem np_sum_mask_count:
  "length d < 2 ^ 63 \<Longrightarrow> sint (np_sum (np_where_eq0 d)) = int (length (filter (\<lambda>x. x = 0) d))"
  by (rule sint_np_sum_where_eq0)

text \<open>The design's end-to-end scenario (labels \<open>[3,3,7,1]\<close>, a model
  whose scores always favour class 3) yields accuracy 1/2 in the code, not the 0.25
  the design states.\<close>

theorem score_design_scenario:
  "score [3, 3, 7, 1] (replicate 4 [0, 0, 0, 1, 0, 0, 0, 0, 0, 0 :: rat]) = Inr (Fval (1 / 2))"
  by code_simp

text \<open>C17 (error): a single prediction row is broadcast against every label: the code
  returns the share of labels equal to that row's class where the design requires
  \<open>LengthMismatchError\<close>.\<close>

theorem score_broadcast_single_row:
  assumes "row \<noteq> []" "length row \<le> 2 ^ 64" "1 < length labels" "length labels < 2 ^ 63"
  shows "score labels [row] =
           Inr (Fval (of_nat (length (filter (\<lambda>l. unat l = first_max row) labels)) /
                      of_nat (length labels))) \<and>
         spec_accuracy [first_max row] (map unat labels) = Inl (LengthMismatch 1 (length labels))"
proof -
  let ?p = "first_max row"
  let ?d = "map (\<lambda>x. x - word_of_nat ?p) (map ucast labels :: i64 list)"
  have p: "?p < 2 ^ 64" using first_max_bound [of "[row]"] assms(1,2) by simp
  have a: "argmax_rows [row] = Inr [?p]" using argmax_rows_Inr [of "[row]"] assms(1) by simp
  have s: "np_sub (map ucast labels) [word_of_nat ?p] = Inr ?d" using assms(3) by (simp add: np_sub_def)
  have "sint (np_sum (np_where_eq0 ?d)) = int (length (filter (\<lambda>x. x = 0) ?d))"
    using assms(4) by (intro sint_np_sum_where_eq0) simp
  also have "length (filter (\<lambda>x. x = 0) ?d) = length (filter (\<lambda>l. unat l = ?p) labels)"
    using zeros_of_broadcast_row [OF p] .
  finally have "sint (np_sum (np_where_eq0 ?d)) = int (length (filter (\<lambda>l. unat l = ?p) labels))" .
  moreover have "labels \<noteq> []" using assms(3) by auto
  ultimately show ?thesis using assms(3)
    by (simp add: score_def a s Let_def true_div_def spec_accuracy_def np_where_eq0_def)
qed

text \<open>The design's tie-break example: scores \<open>[0.5, 0.5, 0.1]\<close>
  give class 0.\<close>

theorem np_argmax_tie_break: "np_argmax [1 / 2, 1 / 2, 1 / 10 :: rat] = Inr 0"
  by (simp add: np_argmax_def)

section \<open>Witnesses\<close>

theorem score_refines_spec_witness:
  "score [1, 0 :: u8] [[0, 1], [1, 0 :: rat]] =
     map_sum id Fval (spec_accuracy (map first_max [[0, 1], [1, 0 :: rat]]) (map unat [1, 0 :: u8])) \<and>
   score [1, 0 :: u8] [[0, 1], [1, 0 :: rat]] = Inr (Fval 1)"
proof -
  have "score [1, 0 :: u8] [[0, 1], [1, 0 :: rat]] =
          map_sum id Fval (spec_accuracy (map first_max [[0, 1], [1, 0 :: rat]]) (map unat [1, 0 :: u8]))"
    by (rule score_refines_spec) simp_all
  then show ?thesis by (simp add: spec_accuracy_def matches_def first_max_def)
qed

theorem np_sum_mask_count_witness:
  "sint (np_sum (np_where_eq0 [0, 5, 0])) = 2"
  using np_sum_mask_count [of "[0, 5, 0]"] by simp

theorem np_argmax_first_maximum_witness:
  "np_argmax [1 / 2, 1 / 2, 1 / 10 :: rat] = Inr 0 \<and>
   [1 / 2, 1 / 2, 1 / 10 :: rat] ! 2 \<le> [1 / 2, 1 / 2, 1 / 10 :: rat] ! 0"
proof -
  have r: "np_argmax [1 / 2, 1 / 2, 1 / 10 :: rat] = Inr 0" by (simp add: np_argmax_def)
  from np_argmax_first_maximum [OF r] have "[1 / 2, 1 / 2, 1 / 10 :: rat] ! 2 \<le> [1 / 2, 1 / 2, 1 / 10 :: rat] ! 0"
    by simp
  with r show ?thesis by simp
qed

theorem score_all_correct_witness: "score [1, 0 :: u8] [[0, 1], [1, 0 :: rat]] = Inr (Fval 1)"
  by (rule score_all_correct) (simp_all add: first_max_def less_Suc_eq)

theorem score_none_correct_witness: "score [0, 1 :: u8] [[0, 1], [1, 0 :: rat]] = Inr (Fval 0)"
  by (rule score_none_correct) (simp_all add: first_max_def less_Suc_eq)

theorem score_bounds_witness:
  "score [1, 0 :: u8] [[0, 1], [1, 0 :: rat]] = Inr (Fval 1) \<and>
   (Fval 1 = NaN \<or> (\<exists>a. Fval 1 = Fval a \<and> 0 \<le> a \<and> a \<le> (1::rat)))"
proof -
  have s: "score [1, 0 :: u8] [[0, 1], [1, 0 :: rat]] = Inr (Fval 1)"
    by (simp add: score_def argmax_rows_def np_argmax_def np_sub_def np_where_eq0_def np_sum_def
        true_div_def)
  have "Fval 1 = NaN \<or> (\<exists>a. Fval 1 = Fval a \<and> 0 \<le> a \<and> a \<le> (1::rat))"
    by (rule score_bounds [OF _ _ s]) simp_all
  with s show ?thesis by blast
qed

theorem score_Inl_iff_witness:
  "score [1, 2, 3 :: u8] [[0, 1], [1, 0 :: rat]] = Inl (BroadcastMismatch 3 2)"
  using score_Inl_iff [of "[1, 2, 3 :: u8]" "[[0, 1], [1, 0 :: rat]]" "BroadcastMismatch 3 2"]
  by simp

theorem score_broadcast_single_row_witness:
  "score [3, 3, 7, 1 :: u8] [[0, 0, 0, 1 :: rat]] = Inr (Fval (1 / 2)) \<and>
   spec_accuracy [3] (map unat [3, 3, 7, 1 :: u8]) = Inl (LengthMismatch 1 4)"
proof -
  have "first_max [0, 0, 0, 1 :: rat] = 3" by (simp add: first_max_def)
  then show ?thesis using score_broadcast_single_row [of "[0, 0, 0, 1 :: rat]" "[3, 3, 7, 1 :: u8]"] by simp
qed

end
