(* ===== verification/Shard.thy ===== *)
theory Shard
  imports Prelude
begin

text \<open>
  The dataset loader \<open>data_loading.cifar10(path)\<close> called by \<open>main\<close>
  (src/python/experiments/cifar_nn/main.py, lines 11--12). The module
  \<open>python.experiments.data_loading\<close> is not under src/, so it is modelled from the
  design (sections 3, 4.1, 6 and 7): a shard file is a sequence of records of
  \<open>1 + pixel_count\<close> bytes, the first byte the label, the rest the channel-planar
  pixels; a file whose length is not a multiple of the record size is corrupt; the
  training split is the concatenation of the training shards in configuration order;
  a missing file is \<open>DatasetNotFound\<close>. The file system is a map from paths to byte
  contents (\<open>None\<close> for a missing or unreadable file); the path is built with
  \<open>os.path.join\<close> as on line 11.
\<close>

section \<open>Definitions\<close>

type_synonym filesystem = "string \<Rightarrow> u8 list option"

text \<open>\<open>os.path.join\<close> (POSIX) of two components: an absolute second component
  replaces the first, otherwise they are joined with one separator.\<close>

definition path_join :: "string \<Rightarrow> string \<Rightarrow> string" where
  "path_join a b =
     (if b \<noteq> [] \<and> hd b = CHR ''/'' then b
      else if a = [] then b
      else if last a = CHR ''/'' then a @ b
      else a @ ''/'' @ b)"

definition main_data_path :: string where
  "main_data_path = path_join (path_join ''.'' ''../../resources'') ''cifar10''"

record cifar_config =
  data_dir :: string
  train_files :: "string list"
  test_file :: string
  pixel_count :: nat

definition cifar10_config :: cifar_config where
  "cifar10_config =
     \<lparr>data_dir = main_data_path,
      train_files = [''data_batch_1.bin'', ''data_batch_2.bin'', ''data_batch_3.bin'',
                     ''data_batch_4.bin'', ''data_batch_5.bin''],
      test_file = ''test_batch.bin'',
      pixel_count = 3 * 32 * 32\<rparr>"

text \<open>Decoding one shard (numpy style: view the bytes as an \<open>N \<times> (1 + pixels)\<close>
  array, column 0 the labels, the rest the images).\<close>

definition decode_shard :: "nat \<Rightarrow> string \<Rightarrow> u8 list \<Rightarrow> error + (u8 list list \<times> u8 list)" where
  "decode_shard psize name bs =
     (if length bs mod Suc psize \<noteq> 0 then Inl (CorruptShard name)
      else let recs = split_n (length bs div Suc psize) (Suc psize) bs
           in Inr (map tl recs, map hd recs))"

text \<open>The same decoding written as a record-by-record parser.\<close>

function decode_records :: "nat \<Rightarrow> string \<Rightarrow> u8 list \<Rightarrow> error + (u8 list list \<times> u8 list)" where
  "decode_records psize name [] = Inr ([], [])"
| "decode_records psize name (b # rest) =
     (if length rest < psize then Inl (CorruptShard name)
      else ebind (decode_records psize name (drop psize rest))
             (\<lambda>(imgs, labels). Inr (take psize rest # imgs, b # labels)))"
  by pat_completeness auto
termination
  by (relation "measure (\<lambda>(p, n, bs). length bs)") auto

text \<open>Writing a split back as shard bytes (used to state the round trips).\<close>

definition encode_shard :: "u8 list list \<times> u8 list \<Rightarrow> u8 list" where
  "encode_shard split = concat (map (\<lambda>(img, l). l # img) (zip (fst split) (snd split)))"

definition read_file :: "filesystem \<Rightarrow> string \<Rightarrow> string \<Rightarrow> error + u8 list" where
  "read_file fs dir name =
     (case fs (path_join dir name) of None \<Rightarrow> Inl (DatasetNotFound name) | Some bs \<Rightarrow> Inr bs)"

definition load_shard :: "cifar_config \<Rightarrow> filesystem \<Rightarrow> string \<Rightarrow> error + (u8 list list \<times> u8 list)" where
  "load_shard cfg fs name =
     ebind (read_file fs (data_dir cfg) name) (decode_shard (pixel_count cfg) name)"

definition load_cifar10 ::
  "cifar_config \<Rightarrow> filesystem \<Rightarrow> error + (u8 list list \<times> u8 list \<times> u8 list list \<times> u8 list)" where
  "load_cifar10 cfg fs =
     ebind (map_err (load_shard cfg fs) (train_files cfg)) (\<lambda>parts.
     ebind (load_shard cfg fs (test_file cfg)) (\<lambda>(test_images, test_labels).
       Inr (concat (map fst parts), concat (map snd parts), test_images, test_labels)))"

section \<open>Decoding lemmas\<close>

lemma encode_shard_length:
  assumes "length imgs = length labels" "\<And>img. img \<in> set imgs \<Longrightarrow> length img = psize"
  shows "length (encode_shard (imgs, labels)) = length labels * Suc psize"
  using assms by (induction imgs labels rule: list_induct2) (simp_all add: encode_shard_def)

lemma records_tl: "length imgs = length labels \<Longrightarrow>
  map tl (map (\<lambda>(img, l). l # img) (zip imgs labels)) = imgs"
  by (induction imgs labels rule: list_induct2) simp_all

lemma records_hd: "length imgs = length labels \<Longrightarrow>
  map hd (map (\<lambda>(img, l). l # img) (zip imgs labels)) = labels"
  by (induction imgs labels rule: list_induct2) simp_all

lemma encode_shard_records:
  "length imgs = length labels \<Longrightarrow>
   encode_shard (imgs, labels) = concat (map (\<lambda>(img, l). l # img) (zip imgs labels))"
  by (simp add: encode_shard_def)

lemma decode_shard_Inr:
  "decode_shard psize name bs = Inr r \<longleftrightarrow>
     length bs mod Suc psize = 0 \<and>
     r = (map tl (split_n (length bs div Suc psize) (Suc psize) bs),
          map hd (split_n (length bs div Suc psize) (Suc psize) bs))"
  by (auto simp: decode_shard_def Let_def)

lemma decode_encode_shard:
  assumes "\<And>img. img \<in> set imgs \<Longrightarrow> length img = psize" "length imgs = length labels"
  shows "decode_shard psize name (encode_shard (imgs, labels)) = Inr (imgs, labels)"
proof -
  let ?recs = "map (\<lambda>(img, l). l # img) (zip imgs labels)"
  have len: "length (encode_shard (imgs, labels)) = length labels * Suc psize"
    using assms(2,1) by (rule encode_shard_length)
  have "\<And>r. r \<in> set ?recs \<Longrightarrow> length r = Suc psize"
    using assms(1) by (auto dest: set_zip_leftD)
  then have "split_n (length ?recs) (Suc psize) (concat ?recs) = ?recs"
    by (rule split_n_concat)
  then have split: "split_n (length labels) (Suc psize) (encode_shard (imgs, labels)) = ?recs"
    using assms(2) by (simp add: encode_shard_def)
  have m: "length (encode_shard (imgs, labels)) mod Suc psize = 0"
    and d: "length (encode_shard (imgs, labels)) div Suc psize = length labels"
    by (simp_all only: len) (simp_all del: mult_Suc_right)
  show ?thesis
    unfolding decode_shard_def Let_def m d
    using split records_tl [OF assms(2)] records_hd [OF assms(2)] by simp
qed

lemma records_of_split:
  "(\<And>r. r \<in> set recs \<Longrightarrow> r \<noteq> []) \<Longrightarrow>
   map (\<lambda>(img, l). l # img) (zip (map tl recs) (map hd recs)) = recs"
  by (induction recs) simp_all

lemma encode_decode_shard:
  assumes "decode_shard psize name bs = Inr r"
  shows "encode_shard r = bs"
proof -
  let ?n = "length bs div Suc psize"
  let ?recs = "split_n ?n (Suc psize) bs"
  from assms have m: "length bs mod Suc psize = 0" and r: "r = (map tl ?recs, map hd ?recs)"
    by (simp_all add: decode_shard_Inr)
  have "Suc psize dvd length bs" using m by (simp only: dvd_eq_mod_eq_0)
  then have len: "length bs = ?n * Suc psize" by (rule dvd_div_mult_self [symmetric])
  have "x \<noteq> []" if "x \<in> set ?recs" for x
    using split_n_piece_length [OF _ that] len by fastforce
  then have "\<And>x. x \<in> set ?recs \<Longrightarrow> x \<noteq> []" .
  then have "encode_shard r = concat ?recs"
    by (simp add: r encode_shard_def records_of_split)
  also have "\<dots> = bs" using len by (rule concat_split_n)
  finally show ?thesis .
qed

lemma decode_shard_short:
  "length rest < psize \<Longrightarrow> decode_shard psize name (b # rest) = Inl (CorruptShard name)"
  by (simp add: decode_shard_def)

lemma decode_shard_Cons:
  assumes "psize \<le> length rest"
  shows "decode_shard psize name (b # rest) =
           ebind (decode_shard psize name (drop psize rest))
             (\<lambda>(imgs, labels). Inr (take psize rest # imgs, b # labels))"
proof -
  let ?L = "length (drop psize rest)"
  have len: "length (b # rest) = ?L + Suc psize" using assms by simp
  have m: "length (b # rest) mod Suc psize = ?L mod Suc psize"
    by (simp only: len mod_add_self2)
  have "(?L + Suc psize) div Suc psize = ?L div Suc psize + 1"
    by (rule div_add_self2) simp
  then have d: "length (b # rest) div Suc psize = Suc (?L div Suc psize)"
    by (simp only: len Suc_eq_plus1)
  show ?thesis
    unfolding decode_shard_def m d Let_def by simp
qed

lemma decode_records_decode_shard: "decode_records psize name bs = decode_shard psize name bs"
proof (induction psize name bs rule: decode_records.induct)
  case (1 psize name)
  then show ?case by (simp add: decode_shard_def)
next
  case (2 psize name b rest)
  show ?case
  proof (cases "length rest < psize")
    case True
    then show ?thesis by (simp add: decode_shard_short)
  next
    case False
    then show ?thesis using "2.IH" by (simp add: decode_shard_Cons)
  qed
qed

lemma decode_shard_layout:
  assumes "decode_shard psize name bs = Inr (imgs, labels)" "i < length labels"
  shows "length imgs = length labels \<and> length (imgs ! i) = psize \<and>
         labels ! i = bs ! (i * Suc psize) \<and>
         (\<forall>j < psize. imgs ! i ! j = bs ! (i * Suc psize + Suc j))"
proof -
  let ?n = "length bs div Suc psize"
  let ?recs = "split_n ?n (Suc psize) bs"
  from assms(1) have m: "length bs mod Suc psize = 0"
    and r: "imgs = map tl ?recs" "labels = map hd ?recs"
    by (simp_all add: decode_shard_Inr)
  have "Suc psize dvd length bs" using m by (simp only: dvd_eq_mod_eq_0)
  then have "?n * Suc psize = length bs" by (rule dvd_div_mult_self)
  then have len: "?n * Suc psize \<le> length bs" by simp
  have i: "i < ?n" using assms(2) r(2) by simp
  have "?recs ! i \<in> set ?recs" using i by simp
  then have lr: "length (?recs ! i) = Suc psize"
    by (rule split_n_piece_length [OF len])
  have at: "?recs ! i ! k = bs ! (i * Suc psize + k)" if "k < Suc psize" for k
    using split_n_nth_nth [OF i that len] .
  have ne: "?recs ! i \<noteq> []" using lr by auto
  have "labels ! i = ?recs ! i ! 0"
    using i ne by (simp add: r(2) hd_conv_nth)
  then have lab: "labels ! i = bs ! (i * Suc psize)"
    using at [of 0] by simp
  have img: "imgs ! i ! j = bs ! (i * Suc psize + Suc j)" if "j < psize" for j
  proof -
    have "imgs ! i ! j = tl (?recs ! i) ! j" using i by (simp add: r(1))
    also have "\<dots> = ?recs ! i ! Suc j" using that lr by (simp add: nth_tl)
    also have "\<dots> = bs ! (i * Suc psize + Suc j)" using that by (intro at) simp
    finally show ?thesis .
  qed
  have "length imgs = length labels" "length (imgs ! i) = psize"
    using i lr by (simp_all add: r)
  with lab img show ?thesis by blast
qed

section \<open>Loading lemmas\<close>

lemma load_shard_Inr:
  "load_shard cfg fs name = Inr r \<longleftrightarrow>
     (\<exists>bs. fs (path_join (data_dir cfg) name) = Some bs \<and> decode_shard (pixel_count cfg) name bs = Inr r)"
  by (auto simp: load_shard_def read_file_def ebind_eq_Inr split: option.splits)

lemma decode_shard_ok: "(\<exists>r. decode_shard psize name bs = Inr r) \<longleftrightarrow> length bs mod Suc psize = 0"
  by (simp add: decode_shard_def Let_def)

lemma load_shard_ok:
  "(\<exists>r. load_shard cfg fs name = Inr r) \<longleftrightarrow>
     (\<exists>bs. fs (path_join (data_dir cfg) name) = Some bs \<and> length bs mod Suc (pixel_count cfg) = 0)"
proof
  assume "\<exists>r. load_shard cfg fs name = Inr r"
  then obtain r bs where "fs (path_join (data_dir cfg) name) = Some bs"
    and "decode_shard (pixel_count cfg) name bs = Inr r"
    by (auto simp: load_shard_Inr)
  then show "\<exists>bs. fs (path_join (data_dir cfg) name) = Some bs \<and> length bs mod Suc (pixel_count cfg) = 0"
    using decode_shard_ok [of "pixel_count cfg" name] by blast
next
  assume "\<exists>bs. fs (path_join (data_dir cfg) name) = Some bs \<and> length bs mod Suc (pixel_count cfg) = 0"
  then obtain bs where rd: "fs (path_join (data_dir cfg) name) = Some bs"
    and md: "length bs mod Suc (pixel_count cfg) = 0" by auto
  from md have "\<exists>r. decode_shard (pixel_count cfg) name bs = Inr r"
    by (simp only: decode_shard_ok)
  then obtain r where "decode_shard (pixel_count cfg) name bs = Inr r" ..
  with rd show "\<exists>r. load_shard cfg fs name = Inr r" by (auto simp: load_shard_Inr)
qed

lemma load_cifar10_Inr:
  "load_cifar10 cfg fs = Inr (tri, trl, tei, tel) \<longleftrightarrow>
     (\<exists>parts. map_err (load_shard cfg fs) (train_files cfg) = Inr parts \<and>
        load_shard cfg fs (test_file cfg) = Inr (tei, tel) \<and>
        tri = concat (map fst parts) \<and> trl = concat (map snd parts))"
proof (cases "map_err (load_shard cfg fs) (train_files cfg)")
  case (Inl e)
  then show ?thesis by (simp add: load_cifar10_def)
next
  case (Inr parts)
  then show ?thesis
    by (cases "load_shard cfg fs (test_file cfg)") (auto simp: load_cifar10_def)
qed

lemma encode_shard_concat:
  "(\<And>p. p \<in> set parts \<Longrightarrow> length (fst p) = length (snd p)) \<Longrightarrow>
   encode_shard (concat (map fst parts), concat (map snd parts)) = concat (map encode_shard parts)"
  by (induction parts) (simp_all add: encode_shard_def)

lemma decode_shard_lengths:
  "decode_shard psize name bs = Inr r \<Longrightarrow> length (fst r) = length (snd r)"
  by (auto simp: decode_shard_Inr)

lemma load_shards_bytes:
  "map_err (load_shard cfg fs) files = Inr parts \<Longrightarrow>
   (\<forall>p \<in> set parts. length (fst p) = length (snd p)) \<and>
   concat (map encode_shard parts) = concat (map (\<lambda>n. the (fs (path_join (data_dir cfg) n))) files)"
proof (induction files arbitrary: parts)
  case Nil
  then show ?case by simp
next
  case (Cons f fs')
  then obtain p ps where p: "load_shard cfg fs f = Inr p" and ps: "map_err (load_shard cfg fs) fs' = Inr ps"
    and parts: "parts = p # ps"
    by (auto simp: ebind_eq_Inr)
  from p obtain bs where bs: "fs (path_join (data_dir cfg) f) = Some bs"
    and dec: "decode_shard (pixel_count cfg) f bs = Inr p"
    by (auto simp: load_shard_Inr)
  show ?case
    using Cons.IH [OF ps] parts bs encode_decode_shard [OF dec] decode_shard_lengths [OF dec]
    by simp
qed

lemma decode_shard_shape:
  assumes "decode_shard psize name bs = Inr (imgs, labels)"
  shows "length imgs = length labels \<and> (\<forall>img \<in> set imgs. length img = psize)"
proof -
  let ?n = "length bs div Suc psize"
  let ?recs = "split_n ?n (Suc psize) bs"
  from assms have m: "length bs mod Suc psize = 0"
    and r: "imgs = map tl ?recs" "labels = map hd ?recs"
    by (simp_all add: decode_shard_Inr)
  have "Suc psize dvd length bs" using m by (simp only: dvd_eq_mod_eq_0)
  then have "?n * Suc psize = length bs" by (rule dvd_div_mult_self)
  then have len: "?n * Suc psize \<le> length bs" by simp
  have "length (tl x) = psize" if "x \<in> set ?recs" for x
    using split_n_piece_length [OF len that] by simp
  then show ?thesis using r by auto
qed

lemma load_shards_shapes:
  "map_err (load_shard cfg fs) files = Inr parts \<Longrightarrow>
   \<forall>p \<in> set parts. length (fst p) = length (snd p) \<and> (\<forall>img \<in> set (fst p). length img = pixel_count cfg)"
proof (induction files arbitrary: parts)
  case Nil
  then show ?case by simp
next
  case (Cons f fs')
  then obtain p ps where p: "load_shard cfg fs f = Inr p" and ps: "map_err (load_shard cfg fs) fs' = Inr ps"
    and parts: "parts = p # ps"
    by (auto simp: ebind_eq_Inr)
  from p obtain bs where "decode_shard (pixel_count cfg) f bs = Inr (fst p, snd p)"
    by (auto simp: load_shard_Inr)
  then have "length (fst p) = length (snd p) \<and> (\<forall>img \<in> set (fst p). length img = pixel_count cfg)"
    by (rule decode_shard_shape)
  with Cons.IH [OF ps] parts show ?case by simp
qed

lemma load_cifar10_shapes:
  assumes "load_cifar10 cfg fs = Inr (tri, trl, tei, tel)"
  shows "length tri = length trl \<and> length tei = length tel \<and>
         (\<forall>img \<in> set tri. length img = pixel_count cfg) \<and> (\<forall>img \<in> set tei. length img = pixel_count cfg)"
proof -
  from assms obtain parts where parts: "map_err (load_shard cfg fs) (train_files cfg) = Inr parts"
    and test: "load_shard cfg fs (test_file cfg) = Inr (tei, tel)"
    and tri: "tri = concat (map fst parts)" and trl: "trl = concat (map snd parts)"
    by (auto simp: load_cifar10_Inr)
  have ps: "\<forall>p \<in> set parts. length (fst p) = length (snd p) \<and> (\<forall>img \<in> set (fst p). length img = pixel_count cfg)"
    using parts by (rule load_shards_shapes)
  then have "length tri = length trl"
    unfolding tri trl by (induction parts) simp_all
  moreover from test obtain bs where "decode_shard (pixel_count cfg) (test_file cfg) bs = Inr (tei, tel)"
    by (auto simp: load_shard_Inr)
  then have "length tei = length tel \<and> (\<forall>img \<in> set tei. length img = pixel_count cfg)"
    by (rule decode_shard_shape)
  moreover have "\<forall>img \<in> set tri. length img = pixel_count cfg"
    using ps unfolding tri by auto
  ultimately show ?thesis by blast
qed

lemma load_shard_Inl:
  "load_shard cfg fs name = Inl e \<longleftrightarrow>
     (case fs (path_join (data_dir cfg) name) of
        None \<Rightarrow> e = DatasetNotFound name
      | Some bs \<Rightarrow> length bs mod Suc (pixel_count cfg) \<noteq> 0 \<and> e = CorruptShard name)"
  by (auto simp: load_shard_def read_file_def decode_shard_def Let_def split: option.splits)

text \<open>The loader reads the training shards in order and the test shard last, and
  stops at the first that fails.\<close>

lemma load_cifar10_Inl:
  "load_cifar10 cfg fs = Inl e \<longleftrightarrow> map_err (load_shard cfg fs) (train_files cfg @ [test_file cfg]) = Inl e"
  by (cases "map_err (load_shard cfg fs) (train_files cfg)"; cases "load_shard cfg fs (test_file cfg)")
    (auto simp: load_cifar10_def map_err_append split: prod.splits)

lemma load_cifar10_ok:
  "(\<exists>r. load_cifar10 cfg fs = Inr r) \<longleftrightarrow>
     (\<forall>name \<in> set (test_file cfg # train_files cfg).
        \<exists>bs. fs (path_join (data_dir cfg) name) = Some bs \<and> length bs mod Suc (pixel_count cfg) = 0)"
proof -
  have "(\<exists>r. load_cifar10 cfg fs = Inr r) \<longleftrightarrow>
          (\<exists>parts. map_err (load_shard cfg fs) (train_files cfg) = Inr parts) \<and>
          (\<exists>r. load_shard cfg fs (test_file cfg) = Inr r)"
    by (cases "map_err (load_shard cfg fs) (train_files cfg)";
        cases "load_shard cfg fs (test_file cfg)") (auto simp: load_cifar10_def)
  then show ?thesis by (simp only: map_err_Inr_iff load_shard_ok) auto
qed

lemma load_cifar10_encoded:
  assumes "\<forall>name \<in> set (train_files cfg @ [test_file cfg]).
             fs (path_join (data_dir cfg) name) = Some (encode_shard (recs name)) \<and>
             length (fst (recs name)) = length (snd (recs name)) \<and>
             (\<forall>img \<in> set (fst (recs name)). length img = pixel_count cfg)"
  shows "load_cifar10 cfg fs =
           Inr (concat (map (fst \<circ> recs) (train_files cfg)), concat (map (snd \<circ> recs) (train_files cfg)),
                fst (recs (test_file cfg)), snd (recs (test_file cfg)))"
proof -
  have one: "load_shard cfg fs name = Inr (recs name)"
    if "name \<in> set (train_files cfg @ [test_file cfg])" for name
  proof -
    from assms that have f: "fs (path_join (data_dir cfg) name) = Some (encode_shard (recs name))"
      and l: "length (fst (recs name)) = length (snd (recs name))"
      and p: "\<And>img. img \<in> set (fst (recs name)) \<Longrightarrow> length img = pixel_count cfg"
      by auto
    have "decode_shard (pixel_count cfg) name (encode_shard (fst (recs name), snd (recs name))) =
            Inr (fst (recs name), snd (recs name))"
      using p l by (rule decode_encode_shard)
    with f show ?thesis by (simp add: load_shard_Inr)
  qed
  have "map_err (load_shard cfg fs) (train_files cfg) = Inr (map recs (train_files cfg))"
    by (rule map_err_all_Inr) (simp add: one)
  moreover have "load_shard cfg fs (test_file cfg) = Inr (recs (test_file cfg))"
    by (simp add: one)
  ultimately show ?thesis
    by (simp add: load_cifar10_def split: prod.splits)
qed

lemma load_cifar10_bytes:
  assumes "load_cifar10 cfg fs = Inr (tri, trl, tei, tel)"
  shows "encode_shard (tri, trl) = concat (map (\<lambda>n. the (fs (path_join (data_dir cfg) n))) (train_files cfg)) \<and>
         encode_shard (tei, tel) = the (fs (path_join (data_dir cfg) (test_file cfg)))"
proof -
  from assms obtain parts where parts: "map_err (load_shard cfg fs) (train_files cfg) = Inr parts"
    and test: "load_shard cfg fs (test_file cfg) = Inr (tei, tel)"
    and tri: "tri = concat (map fst parts)" and trl: "trl = concat (map snd parts)"
    by (auto simp: load_cifar10_Inr)
  note pb = load_shards_bytes [OF parts]
  have "encode_shard (tri, trl) = concat (map encode_shard parts)"
    unfolding tri trl using pb by (intro encode_shard_concat) auto
  moreover from test obtain bs where "fs (path_join (data_dir cfg) (test_file cfg)) = Some bs"
    and "decode_shard (pixel_count cfg) (test_file cfg) bs = Inr (tei, tel)"
    by (auto simp: load_shard_Inr)
  ultimately show ?thesis using pb encode_decode_shard by simp
qed

end
