(* ===== verification/Pipeline.thy ===== *)
theory Pipeline
  imports Reshape Scoring Shard
begin

text \<open>
  The whole of \<open>main()\<close> (src/python/experiments/cifar_nn/main.py, lines 10--31):
  load, reshape both splits with the fixed shapes of lines 13--14, build the dataset
  and the network through the extension module \<open>cifar_nn_py\<close>, train for 10 epochs,
  run the forward pass on the test images, score, and print. The extension module is
  C++ code outside src/; it is the record \<open>collaborator\<close> of its four entry points
  (design section 6) and the two \<open>repr\<close>s that \<open>print(ds)\<close> and \<open>print(net)\<close> show.
  \<open>train\<close> mutates the network in place; here it returns the trained network.
  Standard output is kept as the list of printed lines, so that a run that raises is
  the lines printed before the exception together with the error.
\<close>

section \<open>The collaborator interface\<close>

record ('ds, 'm, 's) collaborator =
  dataset_ctor :: "u8 tensor4 \<Rightarrow> u8 list \<Rightarrow> error + 'ds"
  repr_dataset :: "'ds \<Rightarrow> string"
  simple_net :: "'m"
  repr_net :: "'m \<Rightarrow> string"
  train_fn :: "'m \<Rightarrow> 'ds \<Rightarrow> nat \<Rightarrow> error + 'm"
  forward_fn :: "'m \<Rightarrow> u8 tensor4 \<Rightarrow> error + 's list list"

text \<open>The contract the harness relies on (design section 6): the forward pass
  returns one row of class scores per input sample, and at least one class.\<close>

definition forward_contract :: "('ds, 'm, 's::linorder) collaborator \<Rightarrow> bool" where
  "forward_contract col \<longleftrightarrow>
     (\<forall>m t res. forward_fn col m t = Inr res \<longrightarrow>
        length res = length t \<and> (\<forall>row \<in> set res. row \<noteq> [] \<and> length row \<le> 2 ^ 64))"

section \<open>Standard output and the traced error monad\<close>

datatype out = Line string | ShapeLine nat nat | AccuracyLine fval

type_synonym 'a traced = "out list \<times> (error + 'a)"

definition tbind :: "'a traced \<Rightarrow> ('a \<Rightarrow> 'b traced) \<Rightarrow> 'b traced" where
  "tbind m f = (case snd m of Inl e \<Rightarrow> (fst m, Inl e)
                | Inr x \<Rightarrow> (case f x of (o2, r) \<Rightarrow> (fst m @ o2, r)))"

definition lift :: "error + 'a \<Rightarrow> 'a traced" where
  "lift r = ([], r)"

definition emit :: "out \<Rightarrow> unit traced" where
  "emit l = ([l], Inr ())"

text \<open>\<open>res.shape\<close> of the 2-D score array.\<close>

definition shape2 :: "'s list list \<Rightarrow> nat \<times> nat" where
  "shape2 res = (length res, (case res of [] \<Rightarrow> 0 | r # _ \<Rightarrow> length r))"

section \<open>main\<close>

definition main_load ::
  "filesystem \<Rightarrow> error + (u8 list list \<times> u8 list \<times> u8 list list \<times> u8 list)" where
  "main_load fs = load_cifar10 cifar10_config fs"

definition train_shape :: shape4 where
  "train_shape = (50000, 3, 32, 32)"

definition test_shape :: shape4 where
  "test_shape = (10000, 3, 32, 32)"

definition main_after_load ::
  "('ds, 'm, 's::linorder) collaborator \<Rightarrow> u8 list list \<times> u8 list \<times> u8 list list \<times> u8 list
   \<Rightarrow> unit traced" where
  "main_after_load col data =
     (case data of (train_images, train_labels, test_images, test_labels) \<Rightarrow>
      tbind (lift (reshape_rows train_images train_shape)) (\<lambda>train_t.
      tbind (lift (reshape_rows test_images test_shape)) (\<lambda>test_t.
      tbind (lift (dataset_ctor col train_t train_labels)) (\<lambda>ds.
      tbind (emit (Line (repr_dataset col ds))) (\<lambda>_.
      tbind (emit (Line (repr_net col (simple_net col)))) (\<lambda>_.
      tbind (lift (train_fn col (simple_net col) ds 10)) (\<lambda>net.
      tbind (lift (forward_fn col net test_t)) (\<lambda>res.
      tbind (emit (case shape2 res of (a, b) \<Rightarrow> ShapeLine a b)) (\<lambda>_.
      tbind (lift (score test_labels res)) (\<lambda>accuracy.
      emit (AccuracyLine accuracy)))))))))))"

definition main_run :: "('ds, 'm, 's::linorder) collaborator \<Rightarrow> filesystem \<Rightarrow> unit traced" where
  "main_run col fs = tbind (lift (main_load fs)) (main_after_load col)"

section \<open>The design's experiment (section 4.2)\<close>

text \<open>As the design describes it: the sample count of each reshape is the number of
  loaded samples, predictions are the first maximal class of each row, and the
  accuracy fails on a length mismatch.\<close>

definition run_experiment ::
  "('ds, 'm, 's::linorder) collaborator \<Rightarrow> u8 list list \<Rightarrow> u8 list \<Rightarrow> u8 list list \<Rightarrow> u8 list
   \<Rightarrow> nat \<Rightarrow> error + rat" where
  "run_experiment col train_images train_labels test_images test_labels epochs =
     ebind (reshape_rows train_images (length train_images, 3, 32, 32)) (\<lambda>train_t.
     ebind (reshape_rows test_images (length test_images, 3, 32, 32)) (\<lambda>test_t.
     ebind (dataset_ctor col train_t train_labels) (\<lambda>ds.
     ebind (train_fn col (simple_net col) ds epochs) (\<lambda>net.
     ebind (forward_fn col net test_t) (\<lambda>raw.
     ebind (map_err argmax_ref raw) (\<lambda>preds.
       spec_accuracy preds (map unat test_labels)))))))"

section \<open>A mock collaborator\<close>

text \<open>A stand-in for \<open>cifar_nn_py\<close> used by the witnesses: building the dataset and
  training do nothing, and the forward pass scores every image with class 3 highest,
  as the mock \<open>forward\<close> of the design's end-to-end scenario.\<close>

definition mock_collaborator :: "(unit, unit, rat) collaborator" where
  "mock_collaborator =
     \<lparr>dataset_ctor = (\<lambda>t l. Inr ()), repr_dataset = (\<lambda>_. ''<Dataset>''),
      simple_net = (), repr_net = (\<lambda>_. ''<SimpleNet>''),
      train_fn = (\<lambda>m d e. Inr m),
      forward_fn = (\<lambda>m t. Inr (map (\<lambda>_. [0, 0, 0, 1, 0, 0, 0, 0, 0, 0]) t))\<rparr>"

section \<open>Lemmas on the traced bind\<close>

lemma tbind_lift_Inl [simp]: "tbind (lift (Inl e)) f = ([], Inl e)"
  by (simp add: tbind_def lift_def)

lemma tbind_lift_Inr [simp]: "tbind (lift (Inr x)) f = f x"
  by (simp add: tbind_def lift_def split: prod.splits)

lemma tbind_emit [simp]: "tbind (emit l) f = (l # fst (f ()), snd (f ()))"
  by (simp add: tbind_def emit_def split: prod.splits)

lemma tbind_lift: "tbind (lift r) f = (case r of Inl e \<Rightarrow> ([], Inl e) | Inr x \<Rightarrow> f x)"
  by (cases r) simp_all

lemma fst_emit [simp]: "fst (emit l) = [l]" and snd_emit [simp]: "snd (emit l) = Inr ()"
  by (simp_all add: emit_def)

section \<open>main against the design\<close>

lemma score_of_forward:
  assumes "forward_contract col" "forward_fn col m t = Inr res"
    and "length t = length tel" "0 < length tel" "length tel < 2 ^ 63"
  shows "score tel res = map_sum id Fval (spec_accuracy (map first_max res) (map unat tel))"
    and "map_err argmax_ref res = Inr (map first_max res)"
proof -
  have rows: "\<forall>row \<in> set res. row \<noteq> [] \<and> length row \<le> 2 ^ 64" and len: "length res = length t"
    using assms(1,2) unfolding forward_contract_def by blast+
  show "score tel res = map_sum id Fval (spec_accuracy (map first_max res) (map unat tel))"
    using score_spec_accuracy [of res tel] rows len assms(3-5) by simp
  show "map_err argmax_ref res = Inr (map first_max res)"
    by (rule map_err_all_Inr) (use rows in \<open>simp add: argmax_ref_def\<close>)
qed

lemma reshape_rows_fixed:
  assumes "\<forall>img \<in> set rows. length img = 3072" "length rows = n"
  shows "\<exists>t. reshape_rows rows (n, 3, 32, 32) = Inr t \<and> length t = n"
proof -
  obtain t where "reshape_rows rows (length rows, 3, 32, 32) = Inr t"
    using reshape_rows_Inr [of rows 3 32 32] assms(1) by auto
  with assms(2) show ?thesis by (auto simp: reshape_rows_def dest: length_np_reshape4)
qed

lemma main_after_load_refines:
  assumes counts: "length tri = 50000" "length tei = 10000"
    and rows: "\<forall>img \<in> set tri. length img = 3072" "\<forall>img \<in> set tei. length img = 3072"
    and labels: "length tei = length tel"
    and contract: "forward_contract col"
  shows "snd (main_after_load col (tri, trl, tei, tel)) =
           map_sum id (\<lambda>_. ()) (run_experiment col tri trl tei tel 10) \<and>
         (\<forall>a. run_experiment col tri trl tei tel 10 = Inr a \<longrightarrow>
            last (fst (main_after_load col (tri, trl, tei, tel))) = AccuracyLine (Fval a))"
proof -
  obtain train_t where r1: "reshape_rows tri (50000, 3, 32, 32) = Inr train_t"
    using reshape_rows_fixed [OF rows(1) counts(1)] by blast
  obtain test_t where r2: "reshape_rows tei (10000, 3, 32, 32) = Inr test_t"
    and lt: "length test_t = 10000"
    using reshape_rows_fixed [OF rows(2) counts(2)] by blast
  note steps = r1 r2 counts main_after_load_def run_experiment_def train_shape_def test_shape_def
  show ?thesis
  proof (cases "dataset_ctor col train_t trl")
    case (Inl e)
    then show ?thesis by (simp add: steps)
  next
    case (Inr ds)
    show ?thesis
    proof (cases "train_fn col (simple_net col) ds 10")
      case (Inl e)
      with \<open>dataset_ctor col train_t trl = Inr ds\<close> show ?thesis by (simp add: steps)
    next
      case (Inr net)
      note ds = \<open>dataset_ctor col train_t trl = Inr ds\<close>
      show ?thesis
      proof (cases "forward_fn col net test_t")
        case (Inl e)
        with ds Inr show ?thesis by (simp add: steps)
      next
        case fw: (Inr res)
        have len: "length test_t = length tel" "0 < length tel" "length tel < 2 ^ 63"
          using lt labels counts by simp_all
        note sc = score_of_forward [OF contract fw len]
        have "length res = length tel"
          using contract fw lt labels counts unfolding forward_contract_def by auto
        then obtain a where sa: "spec_accuracy (map first_max res) (map unat tel) = Inr a"
          by (simp add: spec_accuracy_def)
        with ds Inr fw sc show ?thesis by (simp add: steps)
      qed
    qed
  qed
qed

lemma main_load_shapes:
  assumes "main_load fs = Inr (tri, trl, tei, tel)"
  shows "length tri = length trl \<and> length tei = length tel \<and>
         (\<forall>img \<in> set tri. length img = 3072) \<and> (\<forall>img \<in> set tei. length img = 3072)"
  using load_cifar10_shapes [of cifar10_config fs tri trl tei tel] assms
  by (simp add: main_load_def cifar10_config_def)

lemma main_after_load_accuracy_last:
  "AccuracyLine a \<in> set (fst (main_after_load col d)) \<Longrightarrow> snd (main_after_load col d) = Inr ()"
  by (auto simp: main_after_load_def tbind_lift split: sum.splits prod.splits)

lemma main_after_load_output:
  "snd (main_after_load col d) = Inr () \<Longrightarrow>
   \<exists>s1 s2 n k acc. fst (main_after_load col d) = [Line s1, Line s2, ShapeLine n k, AccuracyLine acc]"
  by (auto simp: main_after_load_def tbind_lift split: sum.splits prod.splits)

section \<open>Properties of main\<close>

text \<open>C1 (refinement): when the loaded training and test splits have exactly the
  50000 and 10000 samples hard-coded on lines 13--14 and the forward pass meets its
  contract, \<open>main\<close> ends as the design's \<open>run_experiment\<close> with 10 epochs does: the same
  error, or success with the design's accuracy as the last printed line.\<close>

theorem main_run_refines:
  assumes "main_load fs = Inr (tri, trl, tei, tel)" "length tri = 50000" "length tei = 10000"
    and "forward_contract col"
  shows "snd (main_run col fs) = map_sum id (\<lambda>_. ()) (run_experiment col tri trl tei tel 10) \<and>
         (\<forall>a. run_experiment col tri trl tei tel 10 = Inr a \<longrightarrow>
            last (fst (main_run col fs)) = AccuracyLine (Fval a))"
proof -
  note sh = main_load_shapes [OF assms(1)]
  have "main_run col fs = main_after_load col (tri, trl, tei, tel)"
    using assms(1) by (simp add: main_run_def)
  with main_after_load_refines [OF assms(2,3) _ _ _ assms(4)] sh show ?thesis by simp
qed

text \<open>C7 (error): the sample counts are fixed in the code: a dataset whose training
  split is not 50000 samples or whose test split is not 10000 makes \<open>main\<close> raise the
  reshape's error before anything is printed.\<close>

theorem main_run_wrong_counts:
  assumes "main_load fs = Inr (tri, trl, tei, tel)" "length tri \<noteq> 50000 \<or> length tei \<noteq> 10000"
  shows "main_run col fs = ([], Inl ShapeMismatch)"
proof -
  note sh = main_load_shapes [OF assms(1)]
  have l1: "length (concat tri) = length tri * 3072" and l2: "length (concat tei) = length tei * 3072"
    using sh length_concat_const [of tri 3072] length_concat_const [of tei 3072] by auto
  have run: "main_run col fs = main_after_load col (tri, trl, tei, tel)"
    using assms(1) by (simp add: main_run_def)
  show ?thesis
  proof (cases "length tri = 50000")
    case True
    then have "length tei \<noteq> 10000" using assms(2) by simp
    with True show ?thesis using run l1 l2
      by (simp add: main_after_load_def reshape_rows_def np_reshape4_def train_shape_def test_shape_def)
  next
    case False
    then show ?thesis using run l1
      by (simp add: main_after_load_def reshape_rows_def np_reshape4_def train_shape_def)
  qed
qed

text \<open>A run of \<open>main\<close> that raises never prints an accuracy: there is no
  partial result.\<close>

theorem main_run_no_partial_accuracy:
  "snd (main_run col fs) = Inl e \<Longrightarrow> AccuracyLine a \<notin> set (fst (main_run col fs))"
  using main_after_load_accuracy_last [of a col]
  by (cases "main_load fs") (auto simp: main_run_def)

text \<open>A run of \<open>main\<close> that completes prints exactly four lines,
  in the order of the source: the dataset, the network, the shape of the scores and
  the accuracy.\<close>

theorem main_run_output_order:
  "snd (main_run col fs) = Inr () \<Longrightarrow>
   \<exists>s1 s2 n k acc. fst (main_run col fs) = [Line s1, Line s2, ShapeLine n k, AccuracyLine acc]"
  using main_after_load_output [of col]
  by (cases "main_load fs") (auto simp: main_run_def)

section \<open>Properties of the load on line 12\<close>

text \<open>C3 (roundtrip): shard files written from records (one label byte, then 3072
  pixel bytes each) are loaded back exactly: the training split is the records of
  the five training shards concatenated in configuration order, the test split the
  records of the test shard.\<close>

theorem main_load_roundtrip:
  assumes "\<forall>name \<in> set (train_files cifar10_config @ [test_file cifar10_config]).
             fs (path_join main_data_path name) = Some (encode_shard (recs name)) \<and>
             length (fst (recs name)) = length (snd (recs name)) \<and>
             (\<forall>img \<in> set (fst (recs name)). length img = 3072)"
  shows "main_load fs =
           Inr (concat (map (fst \<circ> recs) (train_files cifar10_config)),
                concat (map (snd \<circ> recs) (train_files cifar10_config)),
                fst (recs (test_file cifar10_config)), snd (recs (test_file cifar10_config)))"
  unfolding main_load_def
  by (rule load_cifar10_encoded) (use assms in \<open>simp add: cifar10_config_def\<close>)

text \<open>C4 (error): the load on line 12 succeeds exactly when all six shard files
  exist under \<open>./../../resources/cifar10\<close> and each has a length that is a multiple
  of the 3073-byte record; otherwise it raises (a missing file or a corrupt shard),
  never returning a truncated or padded split.\<close>

theorem main_load_ok_iff:
  "(\<exists>r. main_load fs = Inr r) \<longleftrightarrow>
     (\<forall>name \<in> set [''test_batch.bin'', ''data_batch_1.bin'', ''data_batch_2.bin'',
                    ''data_batch_3.bin'', ''data_batch_4.bin'', ''data_batch_5.bin''].
        \<exists>bs. fs (path_join main_data_path name) = Some bs \<and> length bs mod 3073 = 0)"
  unfolding main_load_def load_cifar10_ok by (simp add: cifar10_config_def)

text \<open>C10 (functional): what the load returns is the shard files' bytes in order:
  written back as records, the training split is the five training files concatenated
  in configuration order and the test split is the test file.\<close>

theorem main_load_order:
  "main_load fs = Inr (tri, trl, tei, tel) \<Longrightarrow>
   encode_shard (tri, trl) =
     concat (map (\<lambda>n. the (fs (path_join main_data_path n)))
       [''data_batch_1.bin'', ''data_batch_2.bin'', ''data_batch_3.bin'', ''data_batch_4.bin'',
        ''data_batch_5.bin'']) \<and>
   encode_shard (tei, tel) = the (fs (path_join main_data_path ''test_batch.bin''))"
  using load_cifar10_bytes [of cifar10_config fs tri trl tei tel]
  by (simp add: main_load_def cifar10_config_def)

text \<open>C22 (functional): record \<open>i\<close> of the test split is bytes \<open>3073 i\<close> to
  \<open>3073 i + 3072\<close> of the test file: the label is the first byte and the 3072
  pixels follow in file order.\<close>

theorem main_load_test_layout:
  assumes "main_load fs = Inr (tri, trl, tei, tel)"
    and "fs (path_join main_data_path ''test_batch.bin'') = Some bs" and "i < length tel"
  shows "length (tei ! i) = 3072 \<and> tel ! i = bs ! (i * 3073) \<and>
         (\<forall>j < 3072. tei ! i ! j = bs ! (i * 3073 + Suc j))"
proof -
  from assms(1) have "load_shard cifar10_config fs (test_file cifar10_config) = Inr (tei, tel)"
    by (auto simp: main_load_def load_cifar10_Inr)
  with assms(2) have "decode_shard 3072 ''test_batch.bin'' bs = Inr (tei, tel)"
    by (simp add: load_shard_Inr cifar10_config_def)
  from decode_shard_layout [OF this assms(3)] show ?thesis by simp
qed

text \<open>C29 (error): when several shard files are missing or corrupt, the load on
  line 12 reports the first of them in the order \<open>data_batch_1\<close> to \<open>data_batch_5\<close>,
  then \<open>test_batch\<close>: \<open>DatasetNotFound\<close> for a missing file, \<open>CorruptShard\<close> for one
  whose length is not a multiple of 3073; every file before it is present and
  well-formed.\<close>

theorem main_load_first_error:
  "main_load fs = Inl e \<longleftrightarrow>
     (\<exists>pre name post.
        [''data_batch_1.bin'', ''data_batch_2.bin'', ''data_batch_3.bin'', ''data_batch_4.bin'',
         ''data_batch_5.bin'', ''test_batch.bin''] = pre @ name # post \<and>
        (\<forall>n \<in> set pre. \<exists>bs. fs (path_join main_data_path n) = Some bs \<and> length bs mod 3073 = 0) \<and>
        (case fs (path_join main_data_path name) of
           None \<Rightarrow> e = DatasetNotFound name
         | Some bs \<Rightarrow> length bs mod 3073 \<noteq> 0 \<and> e = CorruptShard name))"
  unfolding main_load_def load_cifar10_Inl map_err_Inl_first load_shard_Inl load_shard_ok
  by (simp add: cifar10_config_def cong: option.case_cong)

end
