(* ===== verification/Main_Steps.thy ===== *)
theory Main_Steps
  imports Pipeline
begin

text \<open>
  \<open>main()\<close> (src/python/experiments/cifar_nn/main.py, lines 11--31) statement by
  statement. A program point (\<open>pc\<close>) names the statement about to run and carries the
  local variables still live there; the machine state adds the lines printed so far.
  \<open>pc_step\<close> runs one statement: the load (line 12), the two reshapes (13, 14), the
  dataset (16), the two prints and the network between them (17--19), training (21),
  the forward pass (23), the shape print (24), argmax (25), the subtraction (27), the
  mask (28), the accuracy (29) and its print (31); a statement that raises moves to
  \<open>Raised\<close>. \<open>main_reach\<close> is the set of states a run reaches, \<open>main_exec\<close> a run with
  a step budget, and \<open>main_from\<close> the rest of \<open>main\<close> from a program point as one
  traced computation (the big-step reading). The lemmas: every step decreases the
  number of statements left, so 15 steps end every run; the big-step reading of the
  start is \<open>main_run\<close>; every reachable state has printed a prefix of \<open>main_run\<close>'s
  output and still ends as \<open>main_run\<close> does.
\<close>

section \<open>Program points and states\<close>

datatype ('ds, 'm, 's) pc =
    Start
  | Loaded "u8 list list" "u8 list" "u8 list list" "u8 list"
  | Train_reshaped "u8 tensor4" "u8 list" "u8 list list" "u8 list"
  | Test_reshaped "u8 tensor4" "u8 list" "u8 tensor4" "u8 list"
  | Dataset_built 'ds "u8 tensor4" "u8 list"
  | Dataset_printed 'ds "u8 tensor4" "u8 list"
  | Net_built 'ds 'm "u8 tensor4" "u8 list"
  | Net_printed 'ds 'm "u8 tensor4" "u8 list"
  | Trained 'm "u8 tensor4" "u8 list"
  | Forwarded "'s list list" "u8 list"
  | Shape_printed "'s list list" "u8 list"
  | Predicted "nat list" "u8 list"
  | Subtracted "i64 list"
  | Masked "i64 list"
  | Scored fval
  | Returned
  | Raised error

record ('ds, 'm, 's) mstate =
  pc :: "('ds, 'm, 's) pc"
  stdout :: "out list"

definition main_init :: "('ds, 'm, 's) mstate" where
  "main_init = \<lparr>pc = Start, stdout = []\<rparr>"

text \<open>A statement that may raise: its value continues the run, its exception ends it.\<close>

definition or_raise :: "error + 'a \<Rightarrow> ('a \<Rightarrow> ('ds, 'm, 's) pc) \<Rightarrow> ('ds, 'm, 's) pc" where
  "or_raise r k = (case r of Inl e \<Rightarrow> Raised e | Inr x \<Rightarrow> k x)"

section \<open>One statement\<close>

fun pc_step :: "('ds, 'm, 's::linorder) collaborator \<Rightarrow> filesystem \<Rightarrow> ('ds, 'm, 's) pc
                \<Rightarrow> (('ds, 'm, 's) pc \<times> out list) option" where
  "pc_step col fs Start =
     Some (or_raise (main_load fs) (\<lambda>(tri, trl, tei, tel). Loaded tri trl tei tel), [])"
| "pc_step col fs (Loaded tri trl tei tel) =
     Some (or_raise (reshape_rows tri train_shape) (\<lambda>trt. Train_reshaped trt trl tei tel), [])"
| "pc_step col fs (Train_reshaped trt trl tei tel) =
     Some (or_raise (reshape_rows tei test_shape) (\<lambda>tet. Test_reshaped trt trl tet tel), [])"
| "pc_step col fs (Test_reshaped trt trl tet tel) =
     Some (or_raise (dataset_ctor col trt trl) (\<lambda>ds. Dataset_built ds tet tel), [])"
| "pc_step col fs (Dataset_built ds tet tel) =
     Some (Dataset_printed ds tet tel, [Line (repr_dataset col ds)])"
| "pc_step col fs (Dataset_printed ds tet tel) = Some (Net_built ds (simple_net col) tet tel, [])"
| "pc_step col fs (Net_built ds net tet tel) =
     Some (Net_printed ds net tet tel, [Line (repr_net col net)])"
| "pc_step col fs (Net_printed ds net tet tel) =
     Some (or_raise (train_fn col net ds 10) (\<lambda>net'. Trained net' tet tel), [])"
| "pc_step col fs (Trained net tet tel) =
     Some (or_raise (forward_fn col net tet) (\<lambda>res. Forwarded res tel), [])"
| "pc_step col fs (Forwarded res tel) =
     Some (Shape_printed res tel, [case shape2 res of (a, b) \<Rightarrow> ShapeLine a b])"
| "pc_step col fs (Shape_printed res tel) =
     Some (or_raise (argmax_rows res) (\<lambda>p. Predicted p tel), [])"
| "pc_step col fs (Predicted p tel) =
     Some (or_raise (np_sub (map ucast tel) (map word_of_nat p)) Subtracted, [])"
| "pc_step col fs (Subtracted d) = Some (Masked (np_where_eq0 d), [])"
| "pc_step col fs (Masked sim) = Some (Scored (true_div (sint (np_sum sim)) (length sim)), [])"
| "pc_step col fs (Scored a) = Some (Returned, [AccuracyLine a])"
| "pc_step col fs Returned = None"
| "pc_step col fs (Raised e) = None"

definition main_next ::
  "('ds, 'm, 's::linorder) collaborator \<Rightarrow> filesystem \<Rightarrow> ('ds, 'm, 's) mstate
   \<Rightarrow> ('ds, 'm, 's) mstate option" where
  "main_next col fs s =
     (case pc_step col fs (pc s) of None \<Rightarrow> None
      | Some (p, printed) \<Rightarrow> Some \<lparr>pc = p, stdout = stdout s @ printed\<rparr>)"

section \<open>Runs\<close>

inductive main_reach ::
  "('ds, 'm, 's::linorder) collaborator \<Rightarrow> filesystem \<Rightarrow> ('ds, 'm, 's) mstate \<Rightarrow> bool"
  for col fs where
  start: "main_reach col fs main_init"
| step: "main_reach col fs s \<Longrightarrow> main_next col fs s = Some t \<Longrightarrow> main_reach col fs t"

fun main_exec ::
  "nat \<Rightarrow> ('ds, 'm, 's::linorder) collaborator \<Rightarrow> filesystem \<Rightarrow> ('ds, 'm, 's) mstate
   \<Rightarrow> ('ds, 'm, 's) mstate" where
  "main_exec 0 col fs s = s"
| "main_exec (Suc n) col fs s =
     (case main_next col fs s of None \<Rightarrow> s | Some t \<Rightarrow> main_exec n col fs t)"

fun is_final :: "('ds, 'm, 's) pc \<Rightarrow> bool" where
  "is_final Returned = True"
| "is_final (Raised e) = True"
| "is_final p = False"

text \<open>The number of statements left to run from a program point.\<close>

fun pc_rank :: "('ds, 'm, 's) pc \<Rightarrow> nat" where
  "pc_rank Start = 15"
| "pc_rank (Loaded tri trl tei tel) = 14"
| "pc_rank (Train_reshaped trt trl tei tel) = 13"
| "pc_rank (Test_reshaped trt trl tet tel) = 12"
| "pc_rank (Dataset_built ds tet tel) = 11"
| "pc_rank (Dataset_printed ds tet tel) = 10"
| "pc_rank (Net_built ds net tet tel) = 9"
| "pc_rank (Net_printed ds net tet tel) = 8"
| "pc_rank (Trained net tet tel) = 7"
| "pc_rank (Forwarded res tel) = 6"
| "pc_rank (Shape_printed res tel) = 5"
| "pc_rank (Predicted p tel) = 4"
| "pc_rank (Subtracted d) = 3"
| "pc_rank (Masked sim) = 2"
| "pc_rank (Scored a) = 1"
| "pc_rank Returned = 0"
| "pc_rank (Raised e) = 0"

text \<open>The rest of \<open>main\<close> from a program point, as one traced computation.\<close>

function main_from ::
  "('ds, 'm, 's::linorder) collaborator \<Rightarrow> filesystem \<Rightarrow> ('ds, 'm, 's) pc \<Rightarrow> unit traced" where
  "main_from col fs p =
     (case pc_step col fs p of
        None \<Rightarrow> ([], case p of Raised e \<Rightarrow> Inl e | _ \<Rightarrow> Inr ())
      | Some (q, printed) \<Rightarrow> (printed @ fst (main_from col fs q), snd (main_from col fs q)))"
  by pat_completeness auto
termination
  by (relation "measure (\<lambda>(col, fs, p). pc_rank p)")
    (auto simp: or_raise_def elim!: pc_step.elims split: sum.splits prod.splits)

declare main_from.simps [simp del]

section \<open>Ranks\<close>

lemma or_raise_rank:
  "pc_rank (or_raise r k) < n \<longleftrightarrow> (\<forall>e. r = Inl e \<longrightarrow> 0 < n) \<and> (\<forall>x. r = Inr x \<longrightarrow> pc_rank (k x) < n)"
  by (cases r) (simp_all add: or_raise_def)

lemma pc_step_rank: "pc_step col fs p = Some (q, printed) \<Longrightarrow> pc_rank q < pc_rank p"
  by (cases p) (auto simp: or_raise_rank split: prod.splits)

section \<open>The big-step reading of each statement\<close>

lemma main_from_step:
  "pc_step col fs p = Some (q, printed) \<Longrightarrow>
   main_from col fs p = (printed @ fst (main_from col fs q), snd (main_from col fs q))"
  by (subst main_from.simps) simp

lemma main_from_raise:
  "pc_step col fs p = Some (or_raise r k, []) \<Longrightarrow>
   main_from col fs p = tbind (lift r) (\<lambda>x. main_from col fs (k x))"
  by (cases r) (simp_all add: main_from_step or_raise_def main_from.simps [of col fs "Raised e" for e])

lemma main_from_print:
  "pc_step col fs p = Some (q, [l]) \<Longrightarrow> main_from col fs p = tbind (emit l) (\<lambda>_. main_from col fs q)"
  by (simp add: main_from_step)

lemma main_from_silent: "pc_step col fs p = Some (q, []) \<Longrightarrow> main_from col fs p = main_from col fs q"
  by (simp add: main_from_step)

lemma main_from_final [simp]:
  "main_from col fs Returned = ([], Inr ())" "main_from col fs (Raised e) = ([], Inl e)"
  by (simp_all add: main_from.simps [of col fs Returned] main_from.simps [of col fs "Raised e"])

lemmas main_from_stmt = main_from_raise main_from_print main_from_silent

lemma main_from_pc:
  "main_from col fs Start =
     tbind (lift (main_load fs))
       (\<lambda>data. main_from col fs (case data of (tri, trl, tei, tel) \<Rightarrow> Loaded tri trl tei tel))"
  "main_from col fs (Loaded tri trl tei tel) =
     tbind (lift (reshape_rows tri train_shape)) (\<lambda>trt. main_from col fs (Train_reshaped trt trl tei tel))"
  "main_from col fs (Train_reshaped trt trl tei tel) =
     tbind (lift (reshape_rows tei test_shape)) (\<lambda>tet. main_from col fs (Test_reshaped trt trl tet tel))"
  "main_from col fs (Test_reshaped trt trl tet tel) =
     tbind (lift (dataset_ctor col trt trl)) (\<lambda>ds. main_from col fs (Dataset_built ds tet tel))"
  "main_from col fs (Dataset_built ds tet tel) =
     tbind (emit (Line (repr_dataset col ds))) (\<lambda>_. main_from col fs (Dataset_printed ds tet tel))"
  "main_from col fs (Dataset_printed ds tet tel) = main_from col fs (Net_built ds (simple_net col) tet tel)"
  "main_from col fs (Net_built ds net tet tel) =
     tbind (emit (Line (repr_net col net))) (\<lambda>_. main_from col fs (Net_printed ds net tet tel))"
  "main_from col fs (Net_printed ds net tet tel) =
     tbind (lift (train_fn col net ds 10)) (\<lambda>net'. main_from col fs (Trained net' tet tel))"
  "main_from col fs (Trained net tet tel) =
     tbind (lift (forward_fn col net tet)) (\<lambda>res. main_from col fs (Forwarded res tel))"
  "main_from col fs (Forwarded res tel) =
     tbind (emit (case shape2 res of (a, b) \<Rightarrow> ShapeLine a b)) (\<lambda>_. main_from col fs (Shape_printed res tel))"
  "main_from col fs (Shape_printed res tel) =
     tbind (lift (argmax_rows res)) (\<lambda>p. main_from col fs (Predicted p tel))"
  "main_from col fs (Predicted p tel) =
     tbind (lift (np_sub (map ucast tel) (map word_of_nat p))) (\<lambda>d. main_from col fs (Subtracted d))"
  "main_from col fs (Subtracted d) = main_from col fs (Masked (np_where_eq0 d))"
  "main_from col fs (Masked sim) = main_from col fs (Scored (true_div (sint (np_sum sim)) (length sim)))"
  "main_from col fs (Scored a) = tbind (emit (AccuracyLine a)) (\<lambda>_. main_from col fs Returned)"
  by (rule main_from_stmt; simp)+

lemma tbind_lift_ebind: "tbind (lift (ebind r f)) k = tbind (lift r) (\<lambda>x. tbind (lift (f x)) k)"
  by (cases r) simp_all

lemma tbind_done: "tbind m (\<lambda>_. ([], Inr ())) = (m :: unit traced)"
  by (cases m) (simp add: tbind_def split: sum.splits)

lemma main_from_Loaded: "main_from col fs (Loaded tri trl tei tel) = main_after_load col (tri, trl, tei, tel)"
  by (simp add: main_from_pc main_after_load_def score_def tbind_lift_ebind Let_def emit_def tbind_done)

lemma main_from_Start: "main_from col fs Start = main_run col fs"
  by (simp add: main_from_pc(1) main_from_Loaded main_run_def split_def)

section \<open>Runs: progress, invariant, termination\<close>

lemma main_next_Some:
  "main_next col fs s = Some t \<longleftrightarrow>
     (\<exists>q printed. pc_step col fs (pc s) = Some (q, printed) \<and> t = \<lparr>pc = q, stdout = stdout s @ printed\<rparr>)"
  by (auto simp: main_next_def split: option.splits)

lemma pc_step_None_iff: "pc_step col fs p = None \<longleftrightarrow> is_final p"
  by (cases p) simp_all

lemma main_next_None_iff: "main_next col fs s = None \<longleftrightarrow> is_final (pc s)"
  using pc_step_None_iff [of col fs "pc s"] by (auto simp: main_next_def split: option.splits)

lemma main_from_is_final:
  "is_final p \<Longrightarrow> main_from col fs p = ([], case p of Raised e \<Rightarrow> Inl e | _ \<Rightarrow> Inr ())"
  by (cases p) simp_all

text \<open>The invariant: a reachable state has printed a prefix of \<open>main\<close>'s output, and
  the rest of \<open>main\<close> from its program point prints the remainder and ends as
  \<open>main\<close> does.\<close>

lemma main_reach_main_run:
  "main_reach col fs s \<Longrightarrow>
   (stdout s @ fst (main_from col fs (pc s)), snd (main_from col fs (pc s))) = main_run col fs"
proof (induction rule: main_reach.induct)
  case start
  then show ?case by (simp add: main_init_def main_from_Start)
next
  case (step s t)
  then obtain q printed where st: "pc_step col fs (pc s) = Some (q, printed)"
    and t: "t = \<lparr>pc = q, stdout = stdout s @ printed\<rparr>"
    by (auto simp: main_next_Some)
  from step.IH show ?case by (simp add: main_from_step [OF st] t)
qed

lemma main_next_rank: "main_next col fs s = Some t \<Longrightarrow> pc_rank (pc t) < pc_rank (pc s)"
  by (auto simp: main_next_Some dest: pc_step_rank)

lemma main_exec_reach: "main_reach col fs s \<Longrightarrow> main_reach col fs (main_exec n col fs s)"
proof (induction n arbitrary: s)
  case 0
  then show ?case by simp
next
  case (Suc n)
  then show ?case by (cases "main_next col fs s") (auto intro: main_reach.step)
qed

lemma main_exec_final: "pc_rank (pc s) \<le> n \<Longrightarrow> is_final (pc (main_exec n col fs s))"
proof (induction n arbitrary: s)
  case 0
  then show ?case by (cases "pc s") simp_all
next
  case (Suc n)
  show ?case
  proof (cases "main_next col fs s")
    case None
    then have "is_final (pc s)" by (simp add: main_next_None_iff)
    with None show ?thesis by simp
  next
    case (Some t)
    with Suc.prems have "pc_rank (pc t) \<le> n" using main_next_rank [OF Some] by simp
    with Some Suc.IH show ?thesis by simp
  qed
qed

lemma pc_rank_le: "pc_rank p \<le> 15"
  by (cases p) simp_all

lemma main_exec_init_final: "is_final (pc (main_exec 15 col fs main_init))"
  by (rule main_exec_final) (simp add: main_init_def)

lemma main_exec_init_reach: "main_reach col fs (main_exec n col fs main_init)"
  by (rule main_exec_reach) (rule main_reach.start)

lemma main_final_state:
  assumes "main_reach col fs s" "is_final (pc s)"
  shows "s = \<lparr>pc = (case snd (main_run col fs) of Inl e \<Rightarrow> Raised e | Inr _ \<Rightarrow> Returned),
              stdout = fst (main_run col fs)\<rparr>"
proof -
  have inv: "(stdout s @ fst (main_from col fs (pc s)), snd (main_from col fs (pc s))) = main_run col fs"
    using assms(1) by (rule main_reach_main_run)
  show ?thesis
  proof (cases "pc s")
    case Returned
    with inv [symmetric] show ?thesis by (cases s) auto
  next
    case (Raised e)
    with inv [symmetric] show ?thesis by (cases s) auto
  qed (use assms(2) in simp_all)
qed

lemma pc_step_accuracy_line:
  "pc_step col fs p = Some (q, printed) \<Longrightarrow> AccuracyLine a \<in> set printed \<Longrightarrow> q = Returned"
  by (cases p) (auto split: prod.splits)

section \<open>Properties\<close>

text \<open>Run statement by statement until it stops, \<open>main\<close> prints
  exactly the lines of \<open>main_run\<close> and ends in \<open>Raised e\<close> when \<open>main_run\<close> raises
  \<open>e\<close>, and in \<open>Returned\<close> when it returns: the stage machine and the composed
  definition of lines 10--31 agree, for every collaborator and every file system.\<close>

theorem main_exec_refines_main_run:
  "main_exec 15 col fs main_init =
     \<lparr>pc = (case snd (main_run col fs) of Inl e \<Rightarrow> Raised e | Inr _ \<Rightarrow> Returned),
      stdout = fst (main_run col fs)\<rparr>"
  by (rule main_final_state [OF main_exec_init_reach main_exec_init_final])

text \<open>In every state a run of \<open>main\<close> reaches, the lines printed so
  far followed by what the rest of \<open>main\<close> prints from that statement are the output
  of the whole run, and the rest ends with the run's outcome.\<close>

theorem main_reach_invariant:
  "main_reach col fs s \<Longrightarrow>
   (stdout s @ fst (main_from col fs (pc s)), snd (main_from col fs (pc s))) = main_run col fs"
  by (rule main_reach_main_run)

text \<open>From any program point, running as many steps as there are
  statements left (at most 15) ends \<open>main\<close>: it returns or has raised. No statement
  of lines 11--31 loops; the only unbounded work is inside the collaborator.\<close>

theorem main_exec_terminates: "is_final (pc (main_exec (pc_rank (pc s)) col fs s))"
  by (rule main_exec_final) simp

text \<open>From every state a run of \<open>main\<close> reaches, a state where the
  run has ended (returned or raised) is reachable.\<close>

theorem main_reach_final:
  "main_reach col fs s \<Longrightarrow> \<exists>t. main_reach col fs t \<and> is_final (pc t)"
proof -
  assume r: "main_reach col fs s"
  have "main_reach col fs (main_exec 15 col fs s)" using r by (rule main_exec_reach)
  moreover have "is_final (pc (main_exec 15 col fs s))"
    by (rule main_exec_final) (rule pc_rank_le)
  ultimately show ?thesis by blast
qed

text \<open>In every state a run reaches, an accuracy line has been printed
  only once \<open>main\<close> has returned: no state prints the accuracy and then raises.\<close>

theorem main_reach_accuracy_returned:
  "main_reach col fs s \<Longrightarrow> AccuracyLine a \<in> set (stdout s) \<Longrightarrow> pc s = Returned"
proof (induction rule: main_reach.induct)
  case start
  then show ?case by (simp add: main_init_def)
next
  case (step s t)
  then obtain q printed where st: "pc_step col fs (pc s) = Some (q, printed)"
    and t: "t = \<lparr>pc = q, stdout = stdout s @ printed\<rparr>"
    by (auto simp: main_next_Some)
  show ?case
  proof (cases "AccuracyLine a \<in> set (stdout s)")
    case True
    with step.IH st show ?thesis by simp
  next
    case False
    with step.prems t have "AccuracyLine a \<in> set printed" by simp
    with st t show ?thesis by (simp add: pc_step_accuracy_line)
  qed
qed

section \<open>Witnesses\<close>

lemma main_run_no_files:
  "main_run mock_collaborator (\<lambda>_. None) = ([], Inl (DatasetNotFound ''data_batch_1.bin''))"
  by (simp add: main_run_def main_load_def load_cifar10_def cifar10_config_def load_shard_def
      read_file_def)

lemma main_exec_no_files:
  "main_exec 1 mock_collaborator (\<lambda>_. None) main_init =
     \<lparr>pc = Raised (DatasetNotFound ''data_batch_1.bin''), stdout = []\<rparr>"
  by (simp add: main_init_def main_next_def or_raise_def main_load_def load_cifar10_def
      cifar10_config_def load_shard_def read_file_def)

theorem main_reach_invariant_witness:
  "main_reach mock_collaborator (\<lambda>_. None)
     \<lparr>pc = Raised (DatasetNotFound ''data_batch_1.bin''), stdout = []\<rparr> \<and>
   ([] @ fst (main_from mock_collaborator (\<lambda>_. None) (Raised (DatasetNotFound ''data_batch_1.bin''))),
    snd (main_from mock_collaborator (\<lambda>_. None) (Raised (DatasetNotFound ''data_batch_1.bin'')))) =
   ([], Inl (DatasetNotFound ''data_batch_1.bin''))"
proof -
  have r: "main_reach mock_collaborator (\<lambda>_. None)
             \<lparr>pc = Raised (DatasetNotFound ''data_batch_1.bin''), stdout = []\<rparr>"
    using main_exec_init_reach [of mock_collaborator "\<lambda>_. None" 1] by (simp only: main_exec_no_files)
  from main_reach_invariant [OF r] r show ?thesis by (simp add: main_run_no_files)
qed

theorem main_reach_final_witness:
  "\<exists>t. main_reach mock_collaborator (\<lambda>_. None) t \<and> is_final (pc t)"
  by (rule main_reach_final [OF main_reach.start])

end
