(* ===== verification/Float_Scores.thy ===== *)
theory Float_Scores
  imports Scoring
begin

text \<open>
  The scores that \<open>net.forward(test_images)\<close> returns (main.py line 23) are a
  \<open>float32\<close> array, and line 25 runs numpy's floating-point \<open>argmax\<close> on it. A
  \<open>float32\<close> is a finite value, an infinity or NaN (\<open>f32\<close>; a finite value is kept
  as the rational it denotes, which is all a comparison reads). IEEE's \<open>\<le>\<close> is
  false whenever a NaN is involved (\<open>ieee_le\<close>), and numpy's argmax loop for floats
  tests \<open>!(x <= mp)\<close> and stops at the first NaN (\<open>argmax_f32_from\<close>,
  \<open>np_argmax_f32\<close>). The theory gives \<open>f32\<close> numpy's sort order, NaN last, as a
  \<open>linorder\<close>, and proves that the NaN-propagating loop is the ordered argmax of
  \<open>Scoring\<close> under that order, so \<open>score\<close> and \<open>main\<close> apply to \<open>float32\<close> scores as
  they are.
\<close>

section \<open>Definitions\<close>

datatype f32 = NegInf32 | Fin32 rat | PosInf32 | NaN32

text \<open>IEEE 754 \<open>x <= y\<close> (the C comparison of the argmax loop).\<close>

fun ieee_le :: "f32 \<Rightarrow> f32 \<Rightarrow> bool" where
  "ieee_le NaN32 y = False"
| "ieee_le x NaN32 = False"
| "ieee_le NegInf32 y = True"
| "ieee_le x NegInf32 = False"
| "ieee_le x PosInf32 = True"
| "ieee_le PosInf32 y = False"
| "ieee_le (Fin32 a) (Fin32 b) = (a \<le> b)"

text \<open>numpy's \<open>@TYPE@_argmax\<close> for floating types:
  \<^verbatim>\<open>
    mp = *ip; *max_ind = 0;
    if (npy_isnan(mp)) return 0;
    for (i = 1; i < n; i++) {
        ip++;
        if (!(*ip <= mp)) {
            mp = *ip; *max_ind = i;
            if (npy_isnan(mp)) break;
        }
    }
  \<close>\<close>

fun argmax_f32_from :: "f32 \<Rightarrow> nat \<Rightarrow> nat \<Rightarrow> f32 list \<Rightarrow> nat" where
  "argmax_f32_from mp mi i [] = mi"
| "argmax_f32_from mp mi i (x # xs) =
     (if \<not> ieee_le x mp
      then (if x = NaN32 then i else argmax_f32_from x i (Suc i) xs)
      else argmax_f32_from mp mi (Suc i) xs)"

definition np_argmax_f32 :: "f32 list \<Rightarrow> error + nat" where
  "np_argmax_f32 row =
     (case row of [] \<Rightarrow> Inl EmptyArgmax
      | x # xs \<Rightarrow> Inr (if x = NaN32 then 0 else argmax_f32_from x 0 1 xs))"

section \<open>numpy's sort order on float32\<close>

text \<open>The total order numpy sorts floats by: IEEE's order on the non-NaN values,
  every NaN after them.\<close>

instantiation f32 :: linorder
begin

fun less_eq_f32 :: "f32 \<Rightarrow> f32 \<Rightarrow> bool" where
  "less_eq_f32 x NaN32 = True"
| "less_eq_f32 x y = ieee_le x y"

definition less_f32 :: "f32 \<Rightarrow> f32 \<Rightarrow> bool" where
  "less_f32 x y \<longleftrightarrow> x \<le> y \<and> \<not> y \<le> x"

instance
proof
  fix x y z :: f32
  show "x < y \<longleftrightarrow> x \<le> y \<and> \<not> y \<le> x" by (simp add: less_f32_def)
  show "x \<le> x" by (cases x) simp_all
  show "x \<le> y \<Longrightarrow> y \<le> z \<Longrightarrow> x \<le> z" by (cases x; cases y; cases z) auto
  show "x \<le> y \<Longrightarrow> y \<le> x \<Longrightarrow> x = y" by (cases x; cases y) auto
  show "x \<le> y \<or> y \<le> x" by (cases x; cases y) auto
qed

end

section \<open>Lemmas\<close>

lemma NaN32_top [simp]: "x \<le> NaN32" and NaN32_not_less [simp]: "\<not> NaN32 < x"
  by (cases x; simp add: less_f32_def)+

lemma less_NaN32: "x \<noteq> NaN32 \<Longrightarrow> x < NaN32"
  by (cases x) (simp_all add: less_f32_def)

lemma not_ieee_le_iff: "mp \<noteq> NaN32 \<Longrightarrow> \<not> ieee_le x mp \<longleftrightarrow> mp < x"
  by (cases x; cases mp) (auto simp: less_f32_def)

text \<open>Once the running maximum is the greatest value, the scan keeps its index.\<close>

lemma argmax_from_no_greater:
  "(\<And>y. y \<in> set xs \<Longrightarrow> \<not> mp < y) \<Longrightarrow> argmax_from mp mi i xs = mi"
  by (induction xs arbitrary: i) simp_all

lemma argmax_f32_from_eq:
  "mp \<noteq> NaN32 \<Longrightarrow> argmax_f32_from mp mi i xs = argmax_from mp mi i xs"
proof (induction xs arbitrary: mp mi i)
  case Nil
  then show ?case by simp
next
  case (Cons x xs)
  show ?case
  proof (cases "x = NaN32")
    case True
    then show ?thesis using Cons.prems by (simp add: argmax_from_no_greater less_NaN32)
  next
    case False
    then show ?thesis using Cons by (simp add: not_ieee_le_iff)
  qed
qed

lemma np_argmax_f32_np_argmax: "np_argmax_f32 row = np_argmax row"
proof (cases row)
  case Nil
  then show ?thesis by (simp add: np_argmax_f32_def np_argmax_def)
next
  case (Cons x xs)
  then show ?thesis
    by (simp add: np_argmax_f32_def np_argmax_def argmax_f32_from_eq argmax_from_no_greater)
qed

lemma Max_NaN32: "NaN32 \<in> set row \<Longrightarrow> Max (set row) = NaN32"
  by (rule Max_eqI) simp_all

lemma first_max_NaN32: "NaN32 \<in> set row \<Longrightarrow> first_max row = index_of NaN32 row"
  by (simp add: first_max_def Max_NaN32)

lemma first_max_all_NaN32:
  "row \<noteq> [] \<Longrightarrow> \<forall>x \<in> set row. x = NaN32 \<Longrightarrow> first_max row = 0"
  by (cases row) (simp_all add: first_max_NaN32)

lemma matches_const:
  "matches (replicate (length ls) p) ls = length (filter (\<lambda>l. l = p) ls)"
  by (induction ls) (simp_all add: matches_def)

lemma unat_u8_eq_0: "(unat (l :: u8) = 0) = (l = 0)"
  by (simp add: unat_eq_zero)

section \<open>Properties\<close>

text \<open>C24 (equivalence): numpy's NaN-propagating float argmax (\<open>!(x <= mp)\<close>, stop at
  the first NaN) computes the ordered argmax of line 25 under numpy's float order with
  NaN last; so \<open>score\<close> and \<open>main\<close>, stated for any linear order, cover \<open>float32\<close>
  scores including NaN.\<close>

theorem np_argmax_f32_equiv: "np_argmax_f32 row = np_argmax row"
  by (rule np_argmax_f32_np_argmax)

text \<open>C25 (functional): a score row holding a NaN is predicted as the position of its
  first NaN, whatever the other scores are.\<close>

theorem np_argmax_f32_first_nan:
  "NaN32 \<in> set row \<Longrightarrow> np_argmax_f32 row = Inr (index_of NaN32 row)"
proof -
  assume nan: "NaN32 \<in> set row"
  then have "row \<noteq> []" by auto
  then show ?thesis
    using nan by (simp add: np_argmax_f32_np_argmax np_argmax_ref argmax_ref_def first_max_NaN32)
qed

text \<open>C26 (functional): when the network's scores are all NaN (a diverged training
  run), lines 25--29 raise nothing: every prediction is class 0 and the printed
  accuracy is the share of test samples labelled 0.\<close>

theorem score_all_nan:
  assumes "length raw = length labels" "0 < length labels" "length labels < 2 ^ 63"
    and "\<forall>row \<in> set raw. row \<noteq> [] \<and> length row \<le> 2 ^ 64 \<and> (\<forall>x \<in> set row. x = NaN32)"
  shows "score labels raw =
           Inr (Fval (of_nat (length (filter (\<lambda>l. l = 0) labels)) / of_nat (length labels)))"
proof -
  have rows: "\<forall>row \<in> set raw. row \<noteq> [] \<and> length row \<le> 2 ^ 64" using assms(4) by blast
  have "map first_max raw = map (\<lambda>_. 0) raw"
    using assms(4) by (simp add: first_max_all_NaN32)
  then have "map first_max raw = replicate (length labels) 0"
    using assms(1) by (simp add: map_replicate_const)
  then have "matches (map first_max raw) (map unat labels) = length (filter (\<lambda>l. l = 0) labels)"
    using matches_const [of "map unat labels" 0] by (simp add: filter_map comp_def unat_u8_eq_0)
  then show ?thesis
    using score_spec_accuracy [OF assms(1-3) rows] assms(1) by (simp add: spec_accuracy_def)
qed

section \<open>Witnesses\<close>

theorem np_argmax_f32_first_nan_witness:
  "np_argmax_f32 [Fin32 1, PosInf32, NaN32, NaN32] = Inr 2"
  using np_argmax_f32_first_nan [of "[Fin32 1, PosInf32, NaN32, NaN32]"] by simp

theorem score_all_nan_witness:
  "score [0, 3 :: u8] [[NaN32, NaN32], [NaN32]] = Inr (Fval (1 / 2))"
  using score_all_nan [of "[[NaN32, NaN32], [NaN32]]" "[0, 3 :: u8]"] by simp

end
