(* ===== verification/Module.thy ===== *)
theory Module
  imports Pipeline "HOL-Library.Sublist"
begin

text \<open>
  The module level of src/python/experiments/cifar_nn/main.py: the imports of lines
  1--4, \<open>sys.path.append\<close> of the extension's build directory (line 6), the import of
  the extension \<open>cifar_nn_py\<close> (line 7), and the guard of lines 34--35 that runs
  \<open>main()\<close> only when the file is run as a script. The interpreter state is
  \<open>sys.path\<close>, \<open>sys.modules\<close> (each loaded module with the directory it was found
  in) and the working directory. An \<open>import\<close> returns the cached module, or searches
  the entries of \<open>sys.path\<close> in order, a relative entry resolved against the working
  directory, and raises \<open>ModuleNotFoundError\<close> when no entry holds it. Which
  directory holds which module is the parameter \<open>modenv\<close> (a dotted name counts as
  held by the directory its top-level package is found in). The extension's
  behaviour depends on the file loaded: \<open>run_script\<close> takes the collaborator as a
  function of the directory \<open>cifar_nn_py\<close> was loaded from.
\<close>

section \<open>Definitions\<close>

type_synonym modenv = "string \<Rightarrow> string \<Rightarrow> bool"

record interp =
  sys_path :: "string list"
  sys_modules :: "string \<rightharpoonup> string"
  cwd :: string

text \<open>The first entry of \<open>sys.path\<close> that holds the module, as a directory.\<close>

definition find_module :: "modenv \<Rightarrow> interp \<Rightarrow> string \<Rightarrow> string option" where
  "find_module env st m = find (\<lambda>d. env d m) (map (path_join (cwd st)) (sys_path st))"

definition import_module :: "modenv \<Rightarrow> string \<Rightarrow> interp \<Rightarrow> error + interp" where
  "import_module env m st =
     (case sys_modules st m of
        Some _ \<Rightarrow> Inr st
      | None \<Rightarrow> (case find_module env st m of
                  None \<Rightarrow> Inl (ModuleNotFound m)
                | Some d \<Rightarrow> Inr (st\<lparr>sys_modules := (sys_modules st)(m \<mapsto> d)\<rparr>)))"

definition extension_dir :: string where
  "extension_dir = ''../../../cmake-build-debug/cpp/experiments/cifar_nn''"

definition sys_path_append :: "string \<Rightarrow> interp \<Rightarrow> interp" where
  "sys_path_append d st = st\<lparr>sys_path := sys_path st @ [d]\<rparr>"

text \<open>Lines 1--7, in order.\<close>

definition module_imports :: "modenv \<Rightarrow> interp \<Rightarrow> error + interp" where
  "module_imports env st =
     ebind (import_module env ''python.experiments.data_loading'' st) (\<lambda>st.
     ebind (import_module env ''sys'' st) (\<lambda>st.
     ebind (import_module env ''os'' st) (\<lambda>st.
     ebind (import_module env ''numpy'' st) (\<lambda>st.
       import_module env ''cifar_nn_py'' (sys_path_append extension_dir st)))))"

text \<open>Executing the file as the module \<open>name\<close>: the imports, then \<open>main()\<close> when the
  module is \<open>__main__\<close> (lines 34--35).\<close>

definition run_script ::
  "modenv \<Rightarrow> (string \<Rightarrow> ('ds, 'm, 's::linorder) collaborator) \<Rightarrow> filesystem \<Rightarrow> string
   \<Rightarrow> interp \<Rightarrow> unit traced" where
  "run_script env ext fs name st =
     tbind (lift (module_imports env st)) (\<lambda>st'.
       if name = ''__main__'' then main_run (ext (the (sys_modules st' ''cifar_nn_py''))) fs
       else ([], Inr ()))"

text \<open>What an import phase may do to the interpreter: keep the working directory,
  only add entries at the end of \<open>sys.path\<close>, never unload a module, and load each
  new module from a directory that holds it.\<close>

definition imports_sound :: "modenv \<Rightarrow> interp \<Rightarrow> interp \<Rightarrow> bool" where
  "imports_sound env st st' \<longleftrightarrow>
     cwd st' = cwd st \<and> prefix (sys_path st) (sys_path st') \<and>
     sys_modules st \<subseteq>\<^sub>m sys_modules st' \<and>
     (\<forall>m d. sys_modules st m = None \<longrightarrow> sys_modules st' m = Some d \<longrightarrow> env d m)"

subsection \<open>Sample interpreters\<close>

text \<open>A checkout under \<open>/repo\<close>, run from the script's directory with the repository's
  \<open>src\<close> on \<open>PYTHONPATH\<close>; the extension is built in \<open>cmake-build-debug\<close>, and in
  \<open>stale_env\<close> an older copy is also installed in site-packages. The collaborator
  \<open>ext_demo d\<close> reports the directory it was loaded from as its network's repr.\<close>

definition demo_start :: interp where
  "demo_start =
     \<lparr>sys_path = [''/repo/src'', ''/usr/lib/python3/site-packages''],
      sys_modules = [''sys'' \<mapsto> ''built-in'', ''os'' \<mapsto> ''frozen''],
      cwd = ''/repo/src/python/experiments/cifar_nn''\<rparr>"

definition demo_env :: modenv where
  "demo_env d m =
     ((d = ''/repo/src'' \<and> m = ''python.experiments.data_loading'') \<or>
      (d = ''/usr/lib/python3/site-packages'' \<and> m = ''numpy'') \<or>
      (d = path_join ''/repo/src/python/experiments/cifar_nn'' extension_dir \<and> m = ''cifar_nn_py''))"

definition stale_env :: modenv where
  "stale_env d m = (demo_env d m \<or> (d = ''/usr/lib/python3/site-packages'' \<and> m = ''cifar_nn_py''))"

definition unbuilt_env :: modenv where
  "unbuilt_env d m = (demo_env d m \<and> m \<noteq> ''cifar_nn_py'')"

definition ext_demo :: "string \<Rightarrow> (unit, unit, rat) collaborator" where
  "ext_demo d = mock_collaborator\<lparr>repr_net := (\<lambda>_. d)\<rparr>"

section \<open>Lemmas\<close>

lemma imports_sound_refl: "imports_sound env st st"
  by (simp add: imports_sound_def)

lemma imports_sound_trans:
  assumes "imports_sound env st1 st2" "imports_sound env st2 st3"
  shows "imports_sound env st1 st3"
proof -
  have new: "env d m" if "sys_modules st1 m = None" "sys_modules st3 m = Some d" for m d
  proof (cases "sys_modules st2 m")
    case None
    with assms(2) that(2) show ?thesis by (simp add: imports_sound_def)
  next
    case (Some y)
    with assms(2) have "sys_modules st3 m = Some y"
      unfolding imports_sound_def map_le_def by (metis domI)
    with Some assms(1) that show ?thesis by (auto simp: imports_sound_def)
  qed
  from assms new show ?thesis
    unfolding imports_sound_def by (auto intro: prefix_order.trans map_le_trans)
qed

lemma find_module_holds: "find_module env st m = Some d \<Longrightarrow> env d m"
  by (auto simp: find_module_def find_Some_iff)

lemma import_module_Inr:
  "import_module env m st = Inr st' \<longleftrightarrow>
     (sys_modules st m \<noteq> None \<and> st' = st) \<or>
     (\<exists>d. sys_modules st m = None \<and> find_module env st m = Some d \<and>
          st' = st\<lparr>sys_modules := (sys_modules st)(m \<mapsto> d)\<rparr>)"
  by (auto simp: import_module_def split: option.splits)

lemma import_module_Inl:
  "import_module env m st = Inl e \<longleftrightarrow>
     sys_modules st m = None \<and> find_module env st m = None \<and> e = ModuleNotFound m"
  by (auto simp: import_module_def split: option.splits)

lemma import_module_sound: "import_module env m st = Inr st' \<Longrightarrow> imports_sound env st st'"
  by (auto simp: import_module_Inr imports_sound_def map_le_def find_module_holds split: if_splits)

lemma sys_path_append_sound: "imports_sound env st (sys_path_append d st)"
  by (simp add: imports_sound_def sys_path_append_def)

lemma import_module_frame:
  "import_module env m st = Inr st' \<Longrightarrow>
   sys_path st' = sys_path st \<and> cwd st' = cwd st \<and> (\<forall>m'. m' \<noteq> m \<longrightarrow> sys_modules st' m' = sys_modules st m')"
  by (auto simp: import_module_Inr)

lemma import_module_loads:
  "sys_modules st m = None \<Longrightarrow> import_module env m st = Inr st' \<Longrightarrow>
   sys_modules st' m = find_module env st m"
  by (auto simp: import_module_Inr)

lemma module_imports_steps:
  assumes "module_imports env st = Inr st'"
  obtains s1 s2 s3 s4 where
    "import_module env ''python.experiments.data_loading'' st = Inr s1"
    "import_module env ''sys'' s1 = Inr s2" "import_module env ''os'' s2 = Inr s3"
    "import_module env ''numpy'' s3 = Inr s4"
    "import_module env ''cifar_nn_py'' (sys_path_append extension_dir s4) = Inr st'"
  using assms by (auto simp: module_imports_def ebind_eq_Inr)

lemma module_imports_sound_aux:
  assumes "module_imports env st = Inr st'"
  shows "imports_sound env st st'"
proof -
  obtain s1 s2 s3 s4 where i:
    "import_module env ''python.experiments.data_loading'' st = Inr s1"
    "import_module env ''sys'' s1 = Inr s2" "import_module env ''os'' s2 = Inr s3"
    "import_module env ''numpy'' s3 = Inr s4"
    "import_module env ''cifar_nn_py'' (sys_path_append extension_dir s4) = Inr st'"
    using assms by (rule module_imports_steps)
  note s = i [THEN import_module_sound]
  have "imports_sound env s4 st'"
    by (rule imports_sound_trans [OF sys_path_append_sound s(5)])
  then show ?thesis
    by (meson imports_sound_trans s(1-4))
qed

text \<open>The four imports before line 6 leave \<open>sys.path\<close>, the working directory and
  the entry of \<open>cifar_nn_py\<close> as they were.\<close>

lemma module_imports_Inr:
  "module_imports env st = Inr st' \<longleftrightarrow>
     (\<exists>st4. ebind (import_module env ''python.experiments.data_loading'' st) (\<lambda>st.
            ebind (import_module env ''sys'' st) (\<lambda>st.
            ebind (import_module env ''os'' st) (import_module env ''numpy''))) = Inr st4 \<and>
            import_module env ''cifar_nn_py'' (sys_path_append extension_dir st4) = Inr st')"
  by (auto simp: module_imports_def ebind_eq_Inr)

lemma first_imports_frame:
  "ebind (import_module env ''python.experiments.data_loading'' st) (\<lambda>st.
     ebind (import_module env ''sys'' st) (\<lambda>st.
     ebind (import_module env ''os'' st) (import_module env ''numpy''))) = Inr st4 \<Longrightarrow>
   sys_path st4 = sys_path st \<and> cwd st4 = cwd st \<and> sys_modules st4 ''cifar_nn_py'' = sys_modules st ''cifar_nn_py''"
  by (auto simp: ebind_eq_Inr dest!: import_module_frame)

lemma import_module_Inl_error: "import_module env m st = Inl e \<Longrightarrow> e = ModuleNotFound m"
  by (simp add: import_module_Inl)

lemma module_imports_Inl: "module_imports env st = Inl e \<Longrightarrow> \<exists>m. e = ModuleNotFound m"
  unfolding module_imports_def
  by (auto simp: ebind_eq_Inl dest!: import_module_Inl_error)

lemma import_module_loaded: "import_module env m st = Inr st' \<Longrightarrow> sys_modules st' m \<noteq> None"
  by (auto simp: import_module_Inr)

text \<open>Where the extension comes from: the first entry of the original \<open>sys.path\<close>
  followed by the build directory appended on line 6 that holds it.\<close>

lemma module_imports_extension:
  assumes "sys_modules st ''cifar_nn_py'' = None" "module_imports env st = Inr st'"
  shows "sys_modules st' ''cifar_nn_py'' =
           find (\<lambda>d. env d ''cifar_nn_py'') (map (path_join (cwd st)) (sys_path st @ [extension_dir]))"
proof -
  obtain s1 s2 s3 s4 where i:
    "import_module env ''python.experiments.data_loading'' st = Inr s1"
    "import_module env ''sys'' s1 = Inr s2" "import_module env ''os'' s2 = Inr s3"
    "import_module env ''numpy'' s3 = Inr s4"
    "import_module env ''cifar_nn_py'' (sys_path_append extension_dir s4) = Inr st'"
    using assms(2) by (rule module_imports_steps)
  note f = i(1-4) [THEN import_module_frame]
  have s4: "sys_path s4 = sys_path st" "cwd s4 = cwd st" "sys_modules s4 ''cifar_nn_py'' = None"
    using f assms(1) by simp_all
  then have "sys_modules (sys_path_append extension_dir s4) ''cifar_nn_py'' = None"
    by (simp add: sys_path_append_def)
  from import_module_loads [OF this i(5)] s4 show ?thesis
    by (simp add: find_module_def sys_path_append_def)
qed

lemma run_script_imported:
  "module_imports env st = Inr st' \<Longrightarrow>
   run_script env ext fs name st =
     (if name = ''__main__'' then main_run (ext (the (sys_modules st' ''cifar_nn_py''))) fs else ([], Inr ()))"
  by (simp add: run_script_def)

lemma run_script_failed: "module_imports env st = Inl e \<Longrightarrow> run_script env ext fs name st = ([], Inl e)"
  by (simp add: run_script_def)

section \<open>Properties\<close>

text \<open>C27 (refinement): run as a script with its imports available, the file runs
  \<open>main()\<close> with the extension loaded from the first entry of the original
  \<open>sys.path\<close> that holds \<open>cifar_nn_py\<close>, the build directory of line 6 only when no
  earlier entry does: \<open>append\<close> puts the fresh build last, so an installed copy
  shadows it. The build directory is relative, resolved against the working
  directory.\<close>

theorem run_script_main_extension:
  assumes "sys_modules st ''cifar_nn_py'' = None" "module_imports env st = Inr st'"
  shows "run_script env ext fs ''__main__'' st =
           main_run (ext (the (find (\<lambda>d. env d ''cifar_nn_py'')
                                 (map (path_join (cwd st)) (sys_path st @ [extension_dir]))))) fs"
  by (simp add: run_script_imported [OF assms(2)] module_imports_extension [OF assms])

text \<open>C28 (error): when no entry of \<open>sys.path\<close> and not the build directory holds the
  extension (it has not been built), executing the file raises
  \<open>ModuleNotFoundError\<close> before printing anything, whether it is run as a script or
  imported.\<close>

theorem run_script_no_extension:
  assumes "sys_modules st ''cifar_nn_py'' = None"
    and "\<forall>d \<in> set (sys_path st @ [extension_dir]). \<not> env (path_join (cwd st) d) ''cifar_nn_py''"
  shows "\<exists>m. run_script env ext fs name st = ([], Inl (ModuleNotFound m))"
proof (cases "module_imports env st")
  case (Inl e)
  then show ?thesis using module_imports_Inl [OF Inl] by (auto simp: run_script_failed)
next
  case (Inr st')
  have "sys_modules st' ''cifar_nn_py'' \<noteq> None"
    using Inr by (auto elim!: module_imports_steps dest!: import_module_loaded)
  moreover have "find (\<lambda>d. env d ''cifar_nn_py'') (map (path_join (cwd st)) (sys_path st @ [extension_dir])) = None"
    using assms(2) by (auto simp: find_None_iff)
  ultimately show ?thesis using module_imports_extension [OF assms(1) Inr] by simp
qed

text \<open>Imported under any other name than \<open>__main__\<close>, the file prints
  nothing and never runs \<open>main()\<close>: it only performs its imports, with their
  outcome.\<close>

theorem run_script_imported_quietly:
  "name \<noteq> ''__main__'' \<Longrightarrow>
   run_script env ext fs name st = ([], map_sum id (\<lambda>_. ()) (module_imports env st))"
  by (cases "module_imports env st") (simp_all add: run_script_failed run_script_imported)

text \<open>The import phase of lines 1--7 keeps the working directory,
  only appends to \<open>sys.path\<close>, never unloads a module, and loads every new module
  from a directory that holds it.\<close>

theorem module_imports_sound:
  "module_imports env st = Inr st' \<Longrightarrow> imports_sound env st st'"
  by (rule module_imports_sound_aux)

section \<open>Witnesses\<close>

lemma module_imports_stale:
  "module_imports stale_env demo_start =
     Inr \<lparr>sys_path = [''/repo/src'', ''/usr/lib/python3/site-packages'', extension_dir],
          sys_modules = [''sys'' \<mapsto> ''built-in'', ''os'' \<mapsto> ''frozen'',
                         ''python.experiments.data_loading'' \<mapsto> ''/repo/src'',
                         ''numpy'' \<mapsto> ''/usr/lib/python3/site-packages'',
                         ''cifar_nn_py'' \<mapsto> ''/usr/lib/python3/site-packages''],
          cwd = ''/repo/src/python/experiments/cifar_nn''\<rparr>"
  by (simp add: module_imports_def import_module_def find_module_def demo_start_def stale_env_def
      demo_env_def sys_path_append_def path_join_def extension_dir_def fun_upd_twist)

theorem run_script_main_extension_witness:
  "run_script stale_env ext_demo (\<lambda>_. None) ''__main__'' demo_start =
     main_run (ext_demo ''/usr/lib/python3/site-packages'') (\<lambda>_. None)"
proof -
  have "run_script stale_env ext_demo (\<lambda>_. None) ''__main__'' demo_start =
          main_run (ext_demo (the (find (\<lambda>d. stale_env d ''cifar_nn_py'')
             (map (path_join (cwd demo_start)) (sys_path demo_start @ [extension_dir]))))) (\<lambda>_. None)"
    by (rule run_script_main_extension [OF _ module_imports_stale]) (simp add: demo_start_def)
  then show ?thesis
    by (simp add: demo_start_def stale_env_def demo_env_def path_join_def extension_dir_def)
qed

theorem run_script_no_extension_witness:
  "\<exists>m. run_script unbuilt_env ext_demo (\<lambda>_. None) ''__main__'' demo_start = ([], Inl (ModuleNotFound m))"
  by (rule run_script_no_extension)
    (simp_all add: demo_start_def unbuilt_env_def demo_env_def path_join_def extension_dir_def)

theorem run_script_imported_quietly_witness:
  "run_script demo_env ext_demo (\<lambda>_. None) ''cifar_nn_test'' demo_start = ([], Inr ())"
proof -
  have ok: "\<exists>st'. module_imports demo_env demo_start = Inr st'"
    by (simp add: module_imports_def import_module_def find_module_def demo_start_def demo_env_def
        sys_path_append_def path_join_def extension_dir_def)
  from run_script_imported_quietly [of "''cifar_nn_test''" demo_env ext_demo "\<lambda>_. None" demo_start] ok
  show ?thesis by auto
qed

theorem module_imports_sound_witness:
  "module_imports stale_env demo_start = Inr \<lparr>sys_path = [''/repo/src'', ''/usr/lib/python3/site-packages'', extension_dir],
          sys_modules = [''sys'' \<mapsto> ''built-in'', ''os'' \<mapsto> ''frozen'',
                         ''python.experiments.data_loading'' \<mapsto> ''/repo/src'',
                         ''numpy'' \<mapsto> ''/usr/lib/python3/site-packages'',
                         ''cifar_nn_py'' \<mapsto> ''/usr/lib/python3/site-packages''],
          cwd = ''/repo/src/python/experiments/cifar_nn''\<rparr> \<and>
   imports_sound stale_env demo_start \<lparr>sys_path = [''/repo/src'', ''/usr/lib/python3/site-packages'', extension_dir],
          sys_modules = [''sys'' \<mapsto> ''built-in'', ''os'' \<mapsto> ''frozen'',
                         ''python.experiments.data_loading'' \<mapsto> ''/repo/src'',
                         ''numpy'' \<mapsto> ''/usr/lib/python3/site-packages'',
                         ''cifar_nn_py'' \<mapsto> ''/usr/lib/python3/site-packages''],
          cwd = ''/repo/src/python/experiments/cifar_nn''\<rparr>"
  using module_imports_sound [OF module_imports_stale] module_imports_stale by simp

end
