(* ===== verification/Double.thy ===== *)
theory Double
  imports Scoring "HOL-Library.Log_Nat"
begin

text \<open>
  The division on line 29 of src/python/experiments/cifar_nn/main.py,
  \<open>np.sum(sim)/sim.shape[0]\<close>, divides an \<open>np.int64\<close> by a Python \<open>int\<close>: numpy
  converts both operands to \<open>float64\<close> and divides them in IEEE 754 binary64
  arithmetic, rounding to nearest with ties to even. \<open>Scoring.true_div\<close> is the exact
  quotient; this theory adds the double the program really computes. A finite
  double is kept as the rational it denotes (\<open>Fval\<close> of \<open>Scoring.fval\<close>). The rounding
  (\<open>round_f64\<close>) scales the value by its quantum \<open>2^e\<close>, with \<open>e\<close> the binary exponent
  (\<open>flog2\<close>, computed with \<open>bitlen\<close>) less the 52 fraction bits and at least the
  subnormal exponent \<open>-1074\<close>, rounds the scaled value to an integer, ties to even
  (\<open>rnd_even\<close>), and overflows to an infinity at \<open>2^1024\<close>. \<open>f64_div\<close> is IEEE division
  and \<open>true_div_f64\<close> line 29. The lemmas: conversion of an integer below \<open>2^53\<close> is
  exact, so line 29 rounds the exact quotient once; for a count \<open>k\<close> of matches out
  of \<open>n < 2^53\<close> samples the double lies in \<open>[0, 1]\<close> within a relative error of
  \<open>2^-53\<close>, and is \<open>1.0\<close> only when every sample matches and \<open>0.0\<close> only when none does.
\<close>

section \<open>Definitions\<close>

text \<open>Round half to even of a rational to an integer.\<close>

definition rnd_even :: "rat \<Rightarrow> int" where
  "rnd_even m =
     (let f = \<lfloor>m\<rfloor>; r = m - of_int f
      in if r < 1 / 2 then f else if 1 / 2 < r then f + 1 else if even f then f else f + 1)"

text \<open>The binary exponent \<open>\<lfloor>log2 q\<rfloor>\<close> of a positive rational \<open>q = a / b\<close>: it is
  \<open>bitlen a - bitlen b\<close> or one less.\<close>

definition flog2 :: "rat \<Rightarrow> int" where
  "flog2 q =
     (case quotient_of q of (a, b) \<Rightarrow>
        let t = bitlen a - bitlen b in if 2 powi t \<le> q then t else t - 1)"

text \<open>The exponent of the spacing of binary64 values around \<open>q\<close>: 52 fraction bits
  below the leading bit, and never below the subnormal spacing \<open>2^-1074\<close>.\<close>

definition f64_quantum :: "rat \<Rightarrow> int" where
  "f64_quantum q = max (flog2 \<bar>q\<bar> - 52) (-1074)"

text \<open>The multiple of the quantum nearest to \<open>q\<close>, ties to an even multiple.\<close>

definition f64_nearest :: "rat \<Rightarrow> rat" where
  "f64_nearest q = of_int (rnd_even (q / 2 powi f64_quantum q)) * 2 powi f64_quantum q"

definition round_f64 :: "rat \<Rightarrow> fval" where
  "round_f64 q =
     (if q = 0 then Fval 0
      else if 2 powi 1024 \<le> \<bar>f64_nearest q\<bar> then (if 0 < q then PosInf else NegInf)
      else Fval (f64_nearest q))"

text \<open>IEEE 754 division of two doubles (a zero divisor is \<open>+0.0\<close>: the divisor of
  line 29 is a converted count).\<close>

fun f64_div :: "fval \<Rightarrow> fval \<Rightarrow> fval" where
  "f64_div (Fval a) (Fval b) =
     (if b = 0 then (if a = 0 then NaN else if 0 < a then PosInf else NegInf)
      else round_f64 (a / b))"
| "f64_div NaN y = NaN"
| "f64_div x NaN = NaN"
| "f64_div (Fval a) y = Fval 0"
| "f64_div x (Fval b) =
     (if (x = PosInf) = (0 \<le> b) then PosInf else NegInf)"
| "f64_div x y = NaN"

text \<open>Line 29: both operands converted to \<open>float64\<close>, then divided.\<close>

definition true_div_f64 :: "int \<Rightarrow> nat \<Rightarrow> fval" where
  "true_div_f64 a n = f64_div (round_f64 (of_int a)) (round_f64 (of_nat n))"

text \<open>Lines 25--29 as the program computes them: the scoring of \<open>Scoring.score\<close>
  with the binary64 division of line 29.\<close>

definition score_f64 :: "u8 list \<Rightarrow> 'a::linorder list list \<Rightarrow> error + fval" where
  "score_f64 test_labels raw =
     ebind (argmax_rows raw) (\<lambda>res.
     ebind (np_sub (map ucast test_labels) (map word_of_nat res)) (\<lambda>diff.
       let sim = np_where_eq0 diff
       in Inr (true_div_f64 (sint (np_sum sim)) (length sim))))"

text \<open>The double nearest to an exact result (NaN and the infinities stay).\<close>

definition to_f64 :: "fval \<Rightarrow> fval" where
  "to_f64 v = (case v of Fval q \<Rightarrow> round_f64 q | _ \<Rightarrow> v)"

section \<open>Rounding to an integer\<close>

lemma rnd_even_dist: "\<bar>of_int (rnd_even m) - m\<bar> \<le> 1 / 2"
  unfolding rnd_even_def Let_def
  using of_int_floor_le [of m] floor_correct [of m]
  by (auto simp: abs_if split: if_splits; linarith)

lemma rnd_even_le: "m \<le> of_int j \<Longrightarrow> rnd_even m \<le> j"
  unfolding rnd_even_def Let_def
  by (auto split: if_splits) (linarith | metis floor_le_iff le_floor_iff of_int_floor_le)+

lemma rnd_even_ge: "of_int j \<le> m \<Longrightarrow> j \<le> rnd_even m"
  unfolding rnd_even_def Let_def
  by (auto split: if_splits) (linarith | metis le_floor_iff)+

lemma rnd_even_int [simp]: "rnd_even (of_int j) = j"
  by (simp add: rnd_even_def)

section \<open>The binary exponent\<close>

lemma bitlen_powi:
  assumes "0 < a"
  shows "(2::rat) powi (bitlen a - 1) \<le> of_int a" "of_int a < (2::rat) powi bitlen a"
proof -
  have b: "2 ^ nat (bitlen a - 1) \<le> a" "a < 2 ^ nat (bitlen a)"
    using bitlen_bounds [OF assms] by simp_all
  have "1 \<le> bitlen a"
  proof (rule ccontr)
    assume "\<not> 1 \<le> bitlen a"
    then have "nat (bitlen a) = 0" by simp
    with b(2) assms show False by simp
  qed
  then have e: "bitlen a - 1 = int (nat (bitlen a - 1))" "bitlen a = int (nat (bitlen a))" by simp_all
  have "(2::rat) powi (bitlen a - 1) = of_int (2 ^ nat (bitlen a - 1))"
    by (subst e(1)) (simp only: power_int_of_nat of_int_power of_int_numeral)
  with b(1) show "(2::rat) powi (bitlen a - 1) \<le> of_int a" by (simp only: of_int_le_iff)
  have "(2::rat) powi bitlen a = of_int (2 ^ nat (bitlen a))"
    by (subst e(2)) (simp only: power_int_of_nat of_int_power of_int_numeral)
  with b(2) show "of_int a < (2::rat) powi bitlen a" by (simp only: of_int_less_iff)
qed

lemma flog2_bounds:
  assumes "0 < q"
  shows "2 powi flog2 q \<le> q" "q < 2 powi (flog2 q + 1)"
proof -
  obtain a b where qa: "quotient_of q = (a, b)" by (cases "quotient_of q")
  have bpos: "0 < b" using quotient_of_denom_pos [OF qa] .
  have q: "q = of_int a / of_int b" using quotient_of_div [OF qa] .
  then have apos: "0 < a" using assms bpos by (simp add: zero_less_divide_iff)
  let ?t = "bitlen a - bitlen b"
  have qb: "q * of_int b = of_int a" using q bpos by simp
  note A = bitlen_powi [OF apos] and B = bitlen_powi [OF bpos]
  have p2: "(2::rat) powi (x + y) = 2 powi x * 2 powi y" for x y by (simp add: power_int_add)
  have lo: "2 powi (?t - 1) < q"
  proof -
    have "2 powi (?t - 1) * 2 powi bitlen b = (2::rat) powi (bitlen a - 1)"
      by (simp add: p2 [symmetric])
    also have "\<dots> \<le> q * of_int b" using A(1) qb by simp
    also have "\<dots> < q * 2 powi bitlen b" using B(2) assms by simp
    finally show ?thesis by simp
  qed
  have hi: "q < 2 powi (?t + 1)"
  proof -
    have "q * 2 powi (bitlen b - 1) \<le> q * of_int b" using B(1) assms by simp
    also have "\<dots> < 2 powi bitlen a" using A(2) qb by simp
    also have "\<dots> = 2 powi (?t + 1) * (2::rat) powi (bitlen b - 1)"
      by (simp add: p2 [symmetric])
    finally show ?thesis by simp
  qed
  show "2 powi flog2 q \<le> q" "q < 2 powi (flog2 q + 1)"
    using lo hi by (auto simp: flog2_def qa Let_def)
qed

section \<open>Rounding to the quantum\<close>

lemma quantum_pos [simp]: "0 < (2::rat) powi f64_quantum q"
  by simp

lemma f64_nearest_err: "\<bar>f64_nearest q - q\<bar> \<le> 2 powi f64_quantum q / 2"
proof -
  let ?s = "(2::rat) powi f64_quantum q"
  have "\<bar>of_int (rnd_even (q / ?s)) - q / ?s\<bar> * ?s \<le> 1 / 2 * ?s"
    using rnd_even_dist [of "q / ?s"] by (intro mult_right_mono) simp_all
  moreover have "(of_int (rnd_even (q / ?s)) - q / ?s) * ?s = f64_nearest q - q"
    by (simp add: f64_nearest_def left_diff_distrib)
  then have "\<bar>of_int (rnd_even (q / ?s)) - q / ?s\<bar> * ?s = \<bar>f64_nearest q - q\<bar>"
    by (metis abs_mult abs_of_pos quantum_pos)
  ultimately show ?thesis by simp
qed

lemma f64_nearest_le_grid:
  "q \<le> of_int j * 2 powi f64_quantum q \<Longrightarrow> f64_nearest q \<le> of_int j * 2 powi f64_quantum q"
  unfolding f64_nearest_def
  by (intro mult_right_mono) (simp_all add: rnd_even_le pos_divide_le_eq)

lemma f64_nearest_ge_grid:
  "of_int j * 2 powi f64_quantum q \<le> q \<Longrightarrow> of_int j * 2 powi f64_quantum q \<le> f64_nearest q"
  unfolding f64_nearest_def
  by (intro mult_right_mono) (simp_all add: rnd_even_ge pos_le_divide_eq)


lemma f64_nearest_exact: "q = of_int j * 2 powi f64_quantum q \<Longrightarrow> f64_nearest q = q"
  using f64_nearest_le_grid [of q j] f64_nearest_ge_grid [of j q] by simp

lemma flog2_less: "0 < q \<Longrightarrow> q < 2 powi k \<Longrightarrow> flog2 q < k"
proof (rule ccontr)
  assume q: "0 < q" "q < 2 powi k" and "\<not> flog2 q < k"
  then have "(2::rat) powi k \<le> 2 powi flog2 q" by (intro power_int_increasing) simp_all
  with flog2_bounds(1) [OF q(1)] q(2) show False by simp
qed

lemma flog2_ge: "0 < q \<Longrightarrow> 2 powi k \<le> q \<Longrightarrow> k \<le> flog2 q"
proof (rule ccontr)
  assume q: "0 < q" "2 powi k \<le> q" and "\<not> k \<le> flog2 q"
  then have "(2::rat) powi (flog2 q + 1) \<le> 2 powi k" by (intro power_int_increasing) simp_all
  with flog2_bounds(2) [OF q(1)] q(2) show False by simp
qed

text \<open>A power of two at or above the quantum is a multiple of it.\<close>

lemma powi_split: "e \<le> x \<Longrightarrow> (2::rat) powi x = of_int (2 ^ nat (x - e)) * 2 powi e"
proof -
  assume "e \<le> x"
  then have d: "x - e = int (nat (x - e))" by simp
  have "(2::rat) powi x = 2 powi (x - e) * 2 powi e" by (simp add: power_int_add [symmetric])
  also have "(2::rat) powi (x - e) = of_int (2 ^ nat (x - e))"
    by (subst d) (simp only: power_int_of_nat of_int_power of_int_numeral)
  finally show ?thesis .
qed

text \<open>An integer below \<open>2^53\<close> converts to \<open>float64\<close> exactly.\<close>

lemma round_f64_int: "\<bar>i\<bar> < 2 ^ 53 \<Longrightarrow> round_f64 (of_int i) = Fval (of_int i)"
proof (cases "i = 0")
  case True
  then show ?thesis by (simp add: round_f64_def)
next
  case False
  assume lt: "\<bar>i\<bar> < 2 ^ 53"
  let ?q = "(of_int i :: rat)"
  let ?e = "f64_quantum ?q"
  have pos: "0 < \<bar>?q\<bar>" using False by simp
  have "\<bar>?q\<bar> < 2 powi 53" using lt by (simp add: power_int_of_nat [of _ 53, simplified] flip: of_int_abs)
  then have "flog2 \<bar>?q\<bar> < 53" using pos by (rule flog2_less [rotated])
  then have e: "?e \<le> 0" by (simp add: f64_quantum_def)
  have "?q = of_int (i * 2 ^ nat (0 - ?e)) * 2 powi ?e"
    using powi_split [OF e] by simp
  then have n: "f64_nearest ?q = ?q" by (rule f64_nearest_exact)
  have "\<bar>?q\<bar> < 2 powi 1024"
    using lt by (simp add: power_int_of_nat [of _ 1024, simplified] flip: of_int_abs)
  with False n show ?thesis by (simp add: round_f64_def)
qed

section \<open>Rounding a match rate\<close>

text \<open>For \<open>0 < k \<le> n < 2^53\<close> the rate \<open>k / n\<close> lies in \<open>[2^-53, 1]\<close>: its exponent
  is between \<open>-53\<close> and \<open>0\<close>, so its quantum is \<open>2^(flog2 q - 52)\<close>, the value 1 and,
  below 1, the double \<open>1 - 2^-53\<close> are multiples of that quantum.\<close>

lemma rate_bounds:
  assumes "0 < k" "k \<le> n" "n < 2 ^ 53"
  shows "(2::rat) powi (-53) \<le> of_nat k / of_nat n" "of_nat k / of_nat n \<le> (1::rat)"
    and "k < n \<Longrightarrow> of_nat k / of_nat n \<le> 1 - (2::rat) powi (-53)"
proof -
  have n: "0 < (of_nat n :: rat)" "(of_nat n :: rat) \<le> 2 ^ 53" using assms by simp_all
  have p53: "(2::rat) powi (-53) = 1 / 2 ^ 53" by (simp add: power_int_minus)
  have "1 / 2 ^ 53 \<le> 1 / (of_nat n :: rat)" using n by (intro divide_left_mono) simp_all
  also have "\<dots> \<le> of_nat k / of_nat n" using assms(1) n(1) by (intro divide_right_mono) simp_all
  finally show "(2::rat) powi (-53) \<le> of_nat k / of_nat n" by (simp add: p53)
  show "of_nat k / of_nat n \<le> (1::rat)" using assms(2) n(1) by simp
  assume "k < n"
  then have "(of_nat k :: rat) \<le> of_nat n - 1" by linarith
  then have "of_nat k / of_nat n \<le> (of_nat n - 1) / (of_nat n :: rat)"
    using n(1) by (intro divide_right_mono) simp_all
  also have "\<dots> = 1 - 1 / of_nat n" using n(1) by (simp add: diff_divide_distrib)
  also have "\<dots> \<le> 1 - 1 / 2 ^ 53" using n by (simp add: frac_le)
  finally show "of_nat k / of_nat n \<le> 1 - (2::rat) powi (-53)" by (simp add: p53)
qed

lemma rate_quantum:
  assumes "2 powi (-53) \<le> q" "q \<le> (1::rat)"
  shows "f64_quantum q = flog2 q - 52" "-53 \<le> flog2 q" "flog2 q \<le> 0"
proof -
  have q: "0 < q" using assms(1) by (rule order.strict_trans2 [rotated]) simp
  show "-53 \<le> flog2 q" using q assms(1) by (rule flog2_ge)
  have "q < 2 powi 1" using assms(2) by simp
  then have "flog2 q < 1" by (rule flog2_less [OF q])
  then show "flog2 q \<le> 0" by simp
  show "f64_quantum q = flog2 q - 52"
    using \<open>-53 \<le> flog2 q\<close> q by (simp add: f64_quantum_def)
qed

lemma round_rate:
  assumes "2 powi (-53) \<le> q" "q \<le> (1::rat)"
  shows "round_f64 q = Fval (f64_nearest q)" "0 < f64_nearest q" "f64_nearest q \<le> 1"
    and "\<bar>f64_nearest q - q\<bar> \<le> q / 2 ^ 53"
    and "q \<le> 1 - 2 powi (-53) \<Longrightarrow> f64_nearest q < 1"
proof -
  note Q = rate_quantum [OF assms]
  let ?e = "f64_quantum q"
  have q: "0 < q" using assms(1) by (rule order.strict_trans2 [rotated]) simp
  have e0: "?e \<le> 0" "?e \<le> flog2 q" using Q by simp_all
  have "(1::rat) = of_int (2 ^ nat (0 - ?e)) * 2 powi ?e" using powi_split [OF e0(1)] by simp
  then show le1: "f64_nearest q \<le> 1" using assms(2) f64_nearest_le_grid [of q] by metis
  have "2 powi flog2 q = of_int (2 ^ nat (flog2 q - ?e)) * (2::rat) powi ?e"
    by (rule powi_split [OF e0(2)])
  then have "2 powi flog2 q \<le> f64_nearest q"
    using flog2_bounds(1) [OF q] f64_nearest_ge_grid [of _ q] by metis
  then show "0 < f64_nearest q" by (rule order.strict_trans2 [rotated]) simp
  have "\<bar>f64_nearest q - q\<bar> \<le> 2 powi ?e / 2" by (rule f64_nearest_err)
  also have "2 powi ?e / 2 = (2::rat) powi flog2 q / 2 ^ 53"
    using Q(1) by (simp add: power_int_diff power_int_add)
  also have "\<dots> \<le> q / 2 ^ 53" using flog2_bounds(1) [OF q] by (simp add: divide_right_mono)
  finally show "\<bar>f64_nearest q - q\<bar> \<le> q / 2 ^ 53" .
  have "\<bar>f64_nearest q\<bar> < 2 powi 1024"
    using le1 \<open>0 < f64_nearest q\<close> by (simp add: power_int_of_nat [of _ 1024, simplified])
  with q show "round_f64 q = Fval (f64_nearest q)" by (simp add: round_f64_def)
  assume below: "q \<le> 1 - 2 powi (-53)"
  then have "q < 1" by (simp add: less_le_trans [of q "1 - 2 powi (-53)"])
  then have "flog2 q < 0" using flog2_less [OF q, of 0] by simp
  then have e53: "?e \<le> -53" using Q(1) by simp
  have "1 - 2 powi (-53) = of_int (2 ^ nat (0 - ?e) - 2 ^ nat (-53 - ?e)) * (2::rat) powi ?e"
    using powi_split [OF e0(1)] powi_split [OF e53] by (simp add: left_diff_distrib)
  then have "f64_nearest q \<le> 1 - 2 powi (-53)"
    using below f64_nearest_le_grid [of q] by metis
  then show "f64_nearest q < 1" by (rule le_less_trans) simp
qed

section \<open>Line 29 in binary64\<close>

lemma true_div_f64_to_f64:
  assumes "\<bar>a\<bar> < 2 ^ 53" "n < 2 ^ 53"
  shows "true_div_f64 a n = to_f64 (true_div a n)"
proof -
  have "round_f64 (of_nat n) = Fval (of_nat n)"
    using round_f64_int [of "int n"] assms(2) by simp
  moreover have "round_f64 (of_int a) = Fval (of_int a)" using assms(1) by (rule round_f64_int)
  ultimately show ?thesis by (simp add: true_div_f64_def true_div_def to_f64_def)
qed

lemma true_div_f64_rate:
  assumes "0 < n" "n < 2 ^ 53" "k \<le> n"
  shows "true_div_f64 (int k) n = (if k = 0 then Fval 0 else Fval (f64_nearest (of_nat k / of_nat n)))"
proof -
  have "true_div_f64 (int k) n = to_f64 (true_div (int k) n)"
    using assms by (intro true_div_f64_to_f64) simp_all
  also have "\<dots> = round_f64 (of_nat k / of_nat n)"
    using assms(1) by (simp add: to_f64_def true_div_def)
  finally show ?thesis
    using round_rate(1) [OF rate_bounds(1,2) [OF _ assms(3,2)]] by (simp add: round_f64_def)
qed

lemma score_f64_score:
  assumes "length labels < 2 ^ 53" "length raw < 2 ^ 53"
  shows "score_f64 labels raw = map_sum id to_f64 (score labels raw)"
proof (cases "argmax_rows raw")
  case (Inl e)
  then show ?thesis by (simp add: score_f64_def score_def)
next
  case (Inr res)
  have lr: "length res = length raw"
    using Inr unfolding argmax_rows_def by (rule map_err_Inr_length)
  show ?thesis
  proof (cases "np_sub (map ucast labels) (map word_of_nat res)")
    case (Inl e)
    with Inr show ?thesis by (simp add: score_f64_def score_def)
  next
    case (Inr d)
    have ld: "length d < 2 ^ 53" using np_sub_length [OF Inr] assms lr by auto
    then have "length d < 2 ^ 63" by simp
    then have "sint (np_sum (np_where_eq0 d)) = int (length (filter (\<lambda>x. x = 0) d))"
      by (rule sint_np_sum_where_eq0)
    moreover have "length (filter (\<lambda>x. x = 0) d) < 2 ^ 53"
      by (rule le_less_trans [OF length_filter_le ld])
    ultimately have "true_div_f64 (sint (np_sum (np_where_eq0 d))) (length (np_where_eq0 d)) =
        to_f64 (true_div (sint (np_sum (np_where_eq0 d))) (length (np_where_eq0 d)))"
      using ld by (intro true_div_f64_to_f64) simp_all
    with \<open>argmax_rows raw = Inr res\<close> Inr show ?thesis by (simp add: score_f64_def score_def Let_def)
  qed
qed

lemma matches_Cons: "matches (p # ps) (l # ls) = (if p = l then 1 else 0) + matches ps ls"
  by (simp add: matches_def)

lemma matches_length_iff:
  "length preds = length labels \<Longrightarrow>
   matches preds labels = length labels \<longleftrightarrow> (\<forall>i < length labels. preds ! i = labels ! i)"
proof (induction preds labels rule: list_induct2)
  case Nil
  then show ?case by (simp add: matches_def)
next
  case (Cons p ps l ls)
  have "matches ps ls \<le> length ls"
    using length_filter_le [of "\<lambda>(p, l). p = l" "zip ps ls"] Cons.hyps by (simp add: matches_def)
  with Cons.IH Cons.hyps show ?case by (auto simp: matches_Cons less_Suc_eq_0_disj)
qed

lemma f64_nearest_one: "f64_nearest 1 = 1"
proof -
  have Q: "f64_quantum 1 \<le> 0" using rate_quantum [of 1] by simp
  show ?thesis
    by (rule f64_nearest_exact [of 1 "2 ^ nat (0 - f64_quantum 1)"])
      (use powi_split [OF Q] in simp)
qed

lemma true_div_f64_rate_props:
  assumes "0 < n" "n < 2 ^ 53" "k \<le> n"
  shows "\<exists>d. true_div_f64 (int k) n = Fval d \<and> 0 \<le> d \<and> d \<le> 1 \<and>
             \<bar>d - of_nat k / of_nat n\<bar> \<le> of_nat k / of_nat n / 2 ^ 53 \<and>
             (d = 0 \<longleftrightarrow> k = 0) \<and> (d = 1 \<longleftrightarrow> k = n)"
proof (cases "k = 0")
  case True
  then show ?thesis using assms(1) true_div_f64_rate [OF assms] by simp
next
  case False
  let ?q = "(of_nat k / of_nat n :: rat)"
  have r: "2 powi (-53) \<le> ?q" "?q \<le> 1" using rate_bounds [of k n] False assms(2,3) by simp_all
  note R = round_rate [OF r]
  have one: "f64_nearest ?q = 1 \<longleftrightarrow> k = n"
  proof
    assume "f64_nearest ?q = 1"
    moreover have "k < n \<Longrightarrow> f64_nearest ?q < 1"
      using R(5) rate_bounds(3) [of k n] False assms(2) by simp
    ultimately show "k = n" using assms(3) by fastforce
  next
    assume "k = n"
    then show "f64_nearest ?q = 1" using assms(1) by (simp add: f64_nearest_one)
  qed
  show ?thesis
    using R(2-4) one False by (simp add: true_div_f64_rate [OF assms] less_imp_le)
qed

lemma to_f64_rate:
  "0 < n \<Longrightarrow> n < 2 ^ 53 \<Longrightarrow> k \<le> n \<Longrightarrow>
   to_f64 (Fval (of_nat k / of_nat n)) = true_div_f64 (int k) n"
  using true_div_f64_to_f64 [of "int k" n] by (simp add: true_div_def)

section \<open>Properties\<close>

text \<open>C30 (bounds): for \<open>k\<close> matches out of \<open>0 < n < 2^53\<close> samples, the double that
  line 29 computes lies in \<open>[0, 1]\<close>, within a relative error of \<open>2^-53\<close> of the
  exact rate \<open>k / n\<close>, and is \<open>0.0\<close> exactly when \<open>k = 0\<close> and \<open>1.0\<close> exactly when
  \<open>k = n\<close>: rounding never turns an imperfect score into 1.0.\<close>

theorem true_div_f64_bounds:
  assumes "0 < n" "n < 2 ^ 53" "k \<le> n"
  shows "\<exists>d. true_div_f64 (int k) n = Fval d \<and> 0 \<le> d \<and> d \<le> 1 \<and>
             \<bar>d - of_nat k / of_nat n\<bar> \<le> of_nat k / of_nat n / 2 ^ 53 \<and>
             (d = 0 \<longleftrightarrow> k = 0) \<and> (d = 1 \<longleftrightarrow> k = n)"
  using assms by (rule true_div_f64_rate_props)

text \<open>C31 (functional): with fewer than \<open>2^53\<close> test samples, the accuracy the program
  computes in doubles is exactly 1.0 if and only if every prediction (first maximal
  class) equals its label.\<close>

theorem score_f64_one_iff:
  assumes "length raw = length labels" "0 < length labels" "length labels < 2 ^ 53"
    and "\<forall>row \<in> set raw. row \<noteq> [] \<and> length row \<le> 2 ^ 64"
  shows "score_f64 labels raw = Inr (Fval 1) \<longleftrightarrow>
           (\<forall>i < length labels. first_max (raw ! i) = unat (labels ! i))"
proof -
  let ?m = "matches (map first_max raw) (map unat labels)"
  let ?n = "length labels"
  have m: "?m \<le> ?n"
    using length_filter_le [of "\<lambda>(p, l). p = l" "zip (map first_max raw) (map unat labels)"]
    by (simp add: matches_def)
  have "score_f64 labels raw = map_sum id to_f64 (score labels raw)"
    using assms(1,3) by (intro score_f64_score) simp_all
  also have "score labels raw = map_sum id Fval (spec_accuracy (map first_max raw) (map unat labels))"
    using assms by (intro score_spec_accuracy) simp_all
  finally have "score_f64 labels raw = Inr (true_div_f64 (int ?m) ?n)"
    using assms(1-3) m by (simp add: spec_accuracy_def to_f64_rate)
  moreover obtain d where d: "true_div_f64 (int ?m) ?n = Fval d" "d = 1 \<longleftrightarrow> ?m = ?n"
    using true_div_f64_rate_props [OF assms(2,3) m] by blast
  moreover have "?m = ?n \<longleftrightarrow> (\<forall>i < ?n. first_max (raw ! i) = unat (labels ! i))"
    using matches_length_iff [of "map first_max raw" "map unat labels"] assms(1) by simp
  ultimately show ?thesis by simp
qed

text \<open>C32 (refinement): below \<open>2^53\<close> samples both conversions of line 29 are exact,
  so the double accuracy the program computes is the binary64 rounding of the exact
  accuracy of \<open>Scoring.score\<close> (one rounding, no double rounding), with the same
  errors and the same NaN for an empty test set.\<close>

theorem score_f64_refines_score:
  "length labels < 2 ^ 53 \<Longrightarrow> length raw < 2 ^ 53 \<Longrightarrow>
   score_f64 labels raw = map_sum id to_f64 (score labels raw)"
  by (rule score_f64_score)

section \<open>Witnesses\<close>

theorem true_div_f64_bounds_witness:
  "\<exists>d. true_div_f64 1 3 = Fval d \<and> 0 \<le> d \<and> d \<le> 1 \<and> \<bar>d - 1 / 3\<bar> \<le> 1 / 3 / 2 ^ 53 \<and>
       d \<noteq> 0 \<and> d \<noteq> 1"
  using true_div_f64_bounds [of 3 1] by auto

theorem score_f64_one_iff_witness: "score_f64 [1, 0 :: u8] [[0, 1], [1, 0 :: rat]] = Inr (Fval 1)"
  by (subst score_f64_one_iff) (simp_all add: first_max_def less_Suc_eq)

theorem score_f64_refines_score_witness:
  "score_f64 [3, 3, 7, 1] (replicate 4 [0, 0, 0, 1, 0, 0, 0, 0, 0, 0 :: rat]) =
     map_sum id to_f64 (score [3, 3, 7, 1] (replicate 4 [0, 0, 0, 1, 0, 0, 0, 0, 0, 0 :: rat]))"
  by (rule score_f64_refines_score) simp_all

end
