(* ===== verification/Console.thy ===== *)
theory Console
  imports Pipeline Double
begin

text \<open>
  What \<open>print\<close> writes (main.py lines 17, 19, 24 and 31): \<open>str(x)\<close> and a newline.
  \<open>print(ds)\<close> and \<open>print(net)\<close> write the extension's own strings; \<open>print(res.shape)\<close>
  writes Python's \<open>str\<close> of a tuple of two ints (\<open>dec_digits\<close>, \<open>repr_shape2\<close>);
  \<open>print(accuracy)\<close> writes numpy's \<open>str\<close> of a \<open>float64\<close>, which is CPython's \<open>repr\<close>
  of the double: the fewest significant digits (at most 17) whose nearest double is
  the value (\<open>shortest_dec\<close>), laid out by \<open>format_float_short\<close>'s rules
  (\<open>fmt_repr\<close>), with \<open>nan\<close>, \<open>inf\<close> and \<open>-inf\<close> for the special values (\<open>repr_f64\<close>).
  \<open>stdout_text\<close> is the text of a run's printed lines.

  To state what the text means, the theory also reads it back: \<open>py_float\<close> is
  Python's \<open>float()\<close> on the strings \<open>repr\<close> writes (the exact decimal, then rounded
  to the nearest double), and \<open>parse_shape2\<close> reads a printed 2-tuple. The lemmas
  show that seventeen digits always suffice, that every double's \<open>repr\<close> reads
  back as that double (subnormals, the largest double, signs, zero, infinities and
  NaN included), that no decimal with fewer digits does, and that the shape tuple
  reads back as the shape.
\<close>

section \<open>Definitions\<close>

definition digit_char :: "nat \<Rightarrow> char" where
  "digit_char d = char_of (48 + d)"

fun dec_digits :: "nat \<Rightarrow> string" where
  "dec_digits n =
     (if n < 10 then [digit_char n] else dec_digits (n div 10) @ [digit_char (n mod 10)])"

declare dec_digits.simps [simp del]

definition is_dec_digit :: "char \<Rightarrow> bool" where
  "is_dec_digit c \<longleftrightarrow> 48 \<le> (of_char c :: nat) \<and> (of_char c :: nat) < 58"

definition digit_val :: "char \<Rightarrow> nat" where
  "digit_val c = of_char c - 48"

definition digits_val :: "string \<Rightarrow> nat" where
  "digits_val s = foldl (\<lambda>a c. 10 * a + digit_val c) 0 s"

text \<open>The decimal exponent \<open>\<lfloor>log10 q\<rfloor>\<close> of a positive rational \<open>q = a / b\<close>: the
  difference of the digit counts of \<open>a\<close> and \<open>b\<close>, or one less.\<close>

definition flog10 :: "rat \<Rightarrow> int" where
  "flog10 q =
     (case quotient_of q of (a, b) \<Rightarrow>
        let t = int (length (dec_digits (nat a))) - int (length (dec_digits (nat b)))
        in if 10 powi t \<le> q then t else t - 1)"

text \<open>The decimal of \<open>p\<close> significant digits nearest to \<open>q > 0\<close>, as \<open>(m, k)\<close>
  meaning \<open>m * 10^k\<close> (ties to even, as \<open>dtoa\<close> rounds digits).\<close>

definition dec_round :: "nat \<Rightarrow> rat \<Rightarrow> int \<times> int" where
  "dec_round p q = (let k = flog10 q - int p + 1 in (rnd_even (q / 10 powi k), k))"

definition dec_value :: "int \<times> int \<Rightarrow> rat" where
  "dec_value mk = of_int (fst mk) * 10 powi snd mk"

text \<open>Python's \<open>repr\<close> of a float (numpy's \<open>str\<close> of a \<open>float64\<close> is the same):
  the fewest significant digits, at most 17, whose nearest double is the value.\<close>

text \<open>The \<open>p\<close>-digit decimal \<open>dtoa\<close> writes for \<open>q\<close>, if one reads back as \<open>q\<close>: the
  nearest, else the neighbour on the other side of \<open>q\<close> (below a power of two the
  doubles are twice as dense, so the interval that reads back as \<open>q\<close> is not
  centred on it). No other \<open>p\<close>-digit decimal can read back as \<open>q\<close> when these two
  do not: the interval is convex.\<close>

definition dec_pick :: "nat \<Rightarrow> rat \<Rightarrow> (int \<times> int) option" where
  "dec_pick p q =
     (let c = dec_round p q;
          c' = (if dec_value c \<le> q then (fst c + 1, snd c) else (fst c - 1, snd c))
      in if round_f64 (dec_value c) = Fval q then Some c
         else if round_f64 (dec_value c') = Fval q then Some c' else None)"

definition shortest_dec :: "rat \<Rightarrow> int \<times> int" where
  "shortest_dec q =
     (case find (\<lambda>p. dec_pick p q \<noteq> None) [1..<18] of
        Some p \<Rightarrow> (case dec_pick p q of Some c \<Rightarrow> c | None \<Rightarrow> dec_round 17 q)
      | None \<Rightarrow> dec_round 17 q)"

fun strip_zeros :: "nat \<Rightarrow> int \<Rightarrow> nat \<times> int" where
  "strip_zeros m k = (if m \<noteq> 0 \<and> m mod 10 = 0 then strip_zeros (m div 10) (k + 1) else (m, k))"

declare strip_zeros.simps [simp del]

text \<open>Python's \<open>'%02d'\<close> of an exponent's magnitude.\<close>

definition pad2 :: "string \<Rightarrow> string" where
  "pad2 s = (if length s < 2 then CHR ''0'' # s else s)"

text \<open>The layout of \<open>format_float_short\<close> (CPython, \<open>repr\<close> style): the digits \<open>ds\<close>
  stand for \<open>0.ds * 10^decpt\<close>; scientific notation when \<open>decpt \<le> -4\<close> or
  \<open>16 < decpt\<close>, otherwise positional with at least one digit after the point.\<close>

definition fmt_repr :: "string \<Rightarrow> int \<Rightarrow> string" where
  "fmt_repr ds decpt =
     (if decpt \<le> -4 \<or> 16 < decpt then
        [hd ds] @ (if tl ds = [] then [] else CHR ''.'' # tl ds) @ ''e'' @
        (if decpt - 1 < 0 then ''-'' else ''+'') @ pad2 (dec_digits (nat \<bar>decpt - 1\<bar>))
      else if decpt \<le> 0 then ''0.'' @ replicate (nat (- decpt)) CHR ''0'' @ ds
      else if decpt < int (length ds) then take (nat decpt) ds @ CHR ''.'' # drop (nat decpt) ds
      else ds @ replicate (nat (decpt - int (length ds))) CHR ''0'' @ ''.0'')"

text \<open>\<open>_Py_dg_dtoa(q, 0, ...)\<close>: the digit string and the position of the decimal
  point (the digits \<open>ds\<close> stand for \<open>0.ds * 10^decpt\<close>).\<close>

definition dtoa_shortest :: "rat \<Rightarrow> string \<times> int" where
  "dtoa_shortest q =
     (case shortest_dec q of (m, k) \<Rightarrow>
        case strip_zeros (nat m) k of (m', k') \<Rightarrow>
          (dec_digits m', k' + int (length (dec_digits m'))))"

definition repr_pos :: "rat \<Rightarrow> string" where
  "repr_pos q = (case dtoa_shortest q of (ds, decpt) \<Rightarrow> fmt_repr ds decpt)"

fun repr_f64 :: "fval \<Rightarrow> string" where
  "repr_f64 NaN = ''nan''"
| "repr_f64 PosInf = ''inf''"
| "repr_f64 NegInf = ''-inf''"
| "repr_f64 (Fval d) =
     (if d = 0 then ''0.0'' else if d < 0 then CHR ''-'' # repr_pos (- d) else repr_pos d)"

text \<open>Python's \<open>str\<close> of a non-negative \<open>int\<close>, and of the 2-tuple \<open>res.shape\<close>.\<close>

definition repr_shape2 :: "nat \<Rightarrow> nat \<Rightarrow> string" where
  "repr_shape2 a b = ''('' @ dec_digits a @ '', '' @ dec_digits b @ '')''"

text \<open>What \<open>print(x)\<close> writes for each value main prints (lines 17, 19, 24, 31):
  \<open>str(x)\<close> and a newline. The accuracy of line 29 is a \<open>float64\<close>.\<close>

fun render_out :: "out \<Rightarrow> string" where
  "render_out (Line s) = s"
| "render_out (ShapeLine a b) = repr_shape2 a b"
| "render_out (AccuracyLine v) = repr_f64 (to_f64 v)"

definition stdout_text :: "out list \<Rightarrow> string" where
  "stdout_text outs = concat (map (\<lambda>l. render_out l @ ''\<newline>'') outs)"

text \<open>Reading the text back: Python's \<open>float()\<close> on the strings \<open>repr\<close> writes, and
  the decimal literal it reads exactly before rounding it to a double.\<close>

definition parse_digits :: "string \<Rightarrow> nat option" where
  "parse_digits s = (if s \<noteq> [] \<and> (\<forall>c \<in> set s. is_dec_digit c) then Some (digits_val s) else None)"

definition parse_exp :: "string \<Rightarrow> int option" where
  "parse_exp s =
     (if s \<noteq> [] \<and> hd s = CHR ''-'' then map_option (\<lambda>n. - int n) (parse_digits (tl s))
      else if s \<noteq> [] \<and> hd s = CHR ''+'' then map_option int (parse_digits (tl s))
      else map_option int (parse_digits s))"

definition parse_unsigned :: "string \<Rightarrow> rat option" where
  "parse_unsigned s =
     (let mant = takeWhile (\<lambda>c. c \<noteq> CHR ''e'') s; ex = dropWhile (\<lambda>c. c \<noteq> CHR ''e'') s;
          ip = takeWhile (\<lambda>c. c \<noteq> CHR ''.'') mant; fp = drop 1 (dropWhile (\<lambda>c. c \<noteq> CHR ''.'') mant)
      in case parse_digits (ip @ fp) of
           None \<Rightarrow> None
         | Some v \<Rightarrow>
             (case (if ex = [] then Some 0 else parse_exp (tl ex)) of
                None \<Rightarrow> None
              | Some x \<Rightarrow> Some (of_nat v / 10 ^ length fp * 10 powi x)))"

definition parse_decimal :: "string \<Rightarrow> rat option" where
  "parse_decimal s =
     (if s \<noteq> [] \<and> hd s = CHR ''-'' then map_option uminus (parse_unsigned (tl s))
      else parse_unsigned s)"

definition py_float :: "string \<Rightarrow> fval option" where
  "py_float s =
     (if s = ''nan'' then Some NaN else if s = ''inf'' then Some PosInf
      else if s = ''-inf'' then Some NegInf else map_option round_f64 (parse_decimal s))"

definition parse_shape2 :: "string \<Rightarrow> (nat \<times> nat) option" where
  "parse_shape2 s =
     (if s \<noteq> [] \<and> hd s = CHR ''('' \<and> last s = CHR '')'' then
        (let body = butlast (tl s); a = takeWhile (\<lambda>c. c \<noteq> CHR '','') body;
             b = drop 2 (dropWhile (\<lambda>c. c \<noteq> CHR '','') body)
         in case (parse_digits a, parse_digits b) of
              (Some x, Some y) \<Rightarrow> Some (x, y)
            | _ \<Rightarrow> None)
      else None)"

section \<open>Lemmas\<close>

lemma digit_char_props [simp]:
  "d < 10 \<Longrightarrow> digit_val (digit_char d) = d"
  "d < 10 \<Longrightarrow> is_dec_digit (digit_char d)"
  by (simp_all add: digit_char_def digit_val_def is_dec_digit_def take_bit_nat_eq_self)

lemma digits_val_snoc: "digits_val (s @ [c]) = 10 * digits_val s + digit_val c"
  by (simp add: digits_val_def)

lemma digits_val_append:
  "digits_val (s @ t) = digits_val s * 10 ^ length t + digits_val t"
proof (induction t rule: rev_induct)
  case Nil
  then show ?case by (simp add: digits_val_def)
next
  case (snoc c t)
  have "digits_val (s @ t @ [c]) = 10 * digits_val (s @ t) + digit_val c"
    using digits_val_snoc [of "s @ t" c] by simp
  then show ?case by (simp add: snoc.IH digits_val_snoc algebra_simps)
qed

lemma digits_val_single [simp]: "digits_val [c] = digit_val c"
  by (simp add: digits_val_def)

lemma dec_digits_val [simp]: "digits_val (dec_digits n) = n"
  by (induction n rule: dec_digits.induct) (subst dec_digits.simps; simp add: digits_val_append)

lemma dec_digits_is_dec_digit: "c \<in> set (dec_digits n) \<Longrightarrow> is_dec_digit c"
  by (induction n rule: dec_digits.induct) (subst (asm) dec_digits.simps; auto split: if_splits)

lemma dec_digits_ne [simp]: "dec_digits n \<noteq> []"
  by (subst dec_digits.simps) simp

lemma digits_val_zeros [simp]: "digits_val (replicate j CHR ''0'' @ s) = digits_val s"
proof -
  have "digits_val (replicate j CHR ''0'') = 0"
    by (induction j) (simp_all add: digits_val_def digit_val_def)
  then show ?thesis by (simp add: digits_val_append)
qed

section \<open>Digit counts and the decimal exponent\<close>

lemma dec_digits_bounds:
  "0 < n \<Longrightarrow> 10 ^ (length (dec_digits n) - 1) \<le> n \<and> n < 10 ^ length (dec_digits n)"
proof (induction n rule: dec_digits.induct)
  case (1 n)
  show ?case
  proof (cases "n < 10")
    case True
    then have "dec_digits n = [digit_char n]" by (subst dec_digits.simps) simp
    then show ?thesis using "1.prems" True by simp
  next
    case False
    then have "0 < n div 10" by simp
    with "1.IH" False have ih: "10 ^ (length (dec_digits (n div 10)) - 1) \<le> n div 10"
      "n div 10 < 10 ^ length (dec_digits (n div 10))" by simp_all
    obtain l where l: "length (dec_digits (n div 10)) = Suc l"
      using dec_digits_ne [of "n div 10"] by (cases "dec_digits (n div 10)") simp_all
    have "dec_digits n = dec_digits (n div 10) @ [digit_char (n mod 10)]"
      using False by (subst dec_digits.simps) simp
    then have len: "length (dec_digits n) = Suc (Suc l)" using l by simp
    have "10 ^ Suc l \<le> 10 * (n div 10)" using ih(1) l by simp
    also have "\<dots> \<le> n" by simp
    finally have lo: "10 ^ Suc l \<le> n" .
    have "n < 10 * (n div 10 + 1)" by simp
    also have "\<dots> \<le> 10 * 10 ^ Suc l" using ih(2) l by simp
    finally have hi: "n < 10 ^ Suc (Suc l)" by simp
    show ?thesis using lo hi len by simp
  qed
qed

lemma digits_powi:
  assumes "0 < a"
  shows "(10::rat) powi (int (length (dec_digits (nat a))) - 1) \<le> of_int a"
    "of_int a < (10::rat) powi int (length (dec_digits (nat a)))"
proof -
  let ?l = "length (dec_digits (nat a))"
  have b: "10 ^ (?l - 1) \<le> nat a" "nat a < 10 ^ ?l"
    using dec_digits_bounds [of "nat a"] assms by simp_all
  have "1 \<le> ?l" using dec_digits_ne [of "nat a"] by (cases ?l) simp_all
  then have e: "int ?l - 1 = int (?l - 1)" by simp
  have "(10::rat) powi (int ?l - 1) = of_nat (10 ^ (?l - 1))"
    by (subst e) (simp only: power_int_of_nat of_nat_power of_nat_numeral)
  also have "\<dots> \<le> of_nat (nat a)" using b(1) by (simp only: of_nat_le_iff)
  finally show "(10::rat) powi (int ?l - 1) \<le> of_int a" using assms by simp
  have "of_int a = (of_nat (nat a) :: rat)" using assms by simp
  also have "\<dots> < of_nat (10 ^ ?l)" using b(2) by (simp only: of_nat_less_iff)
  also have "\<dots> = (10::rat) powi int ?l" by (simp add: power_int_of_nat)
  finally show "of_int a < (10::rat) powi int ?l" .
qed

lemma flog10_bounds:
  assumes "0 < q"
  shows "10 powi flog10 q \<le> q" "q < 10 powi (flog10 q + 1)"
proof -
  obtain a b where qa: "quotient_of q = (a, b)" by (cases "quotient_of q")
  have bpos: "0 < b" using quotient_of_denom_pos [OF qa] .
  have q: "q = of_int a / of_int b" using quotient_of_div [OF qa] .
  then have apos: "0 < a" using assms bpos by (simp add: zero_less_divide_iff)
  let ?la = "int (length (dec_digits (nat a)))" and ?lb = "int (length (dec_digits (nat b)))"
  let ?t = "?la - ?lb"
  have qb: "q * of_int b = of_int a" using q bpos by simp
  note A = digits_powi [OF apos] and B = digits_powi [OF bpos]
  have p10: "(10::rat) powi (x + y) = 10 powi x * 10 powi y" for x y by (simp add: power_int_add)
  have lo: "10 powi (?t - 1) < q"
  proof -
    have "10 powi (?t - 1) * 10 powi ?lb = (10::rat) powi (?la - 1)"
      using p10 [of "?t - 1" ?lb] by simp
    also have "\<dots> \<le> q * of_int b" using A(1) qb by simp
    also have "\<dots> < q * 10 powi ?lb" using B(2) assms by simp
    finally show ?thesis by simp
  qed
  have hi: "q < 10 powi (?t + 1)"
  proof -
    have "q * 10 powi (?lb - 1) \<le> q * of_int b" using B(1) assms by simp
    also have "\<dots> < 10 powi ?la" using A(2) qb by simp
    also have "\<dots> = 10 powi (?t + 1) * (10::rat) powi (?lb - 1)"
      using p10 [of "?t + 1" "?lb - 1"] by simp
    finally show ?thesis by simp
  qed
  show "10 powi flog10 q \<le> q" "q < 10 powi (flog10 q + 1)"
    using lo hi by (auto simp: flog10_def qa Let_def)
qed

lemma dec_round_err:
  "\<bar>dec_value (dec_round p q) - q\<bar> \<le> 10 powi (flog10 q - int p + 1) / 2"
proof -
  let ?s = "(10::rat) powi (flog10 q - int p + 1)"
  have s: "0 < ?s" by simp
  have "\<bar>of_int (rnd_even (q / ?s)) - q / ?s\<bar> * ?s \<le> 1 / 2 * ?s"
    using rnd_even_dist [of "q / ?s"] by (intro mult_right_mono) simp_all
  moreover have "(of_int (rnd_even (q / ?s)) - q / ?s) * ?s = dec_value (dec_round p q) - q"
    using s by (simp add: dec_value_def dec_round_def Let_def left_diff_distrib)
  then have "\<bar>of_int (rnd_even (q / ?s)) - q / ?s\<bar> * ?s = \<bar>dec_value (dec_round p q) - q\<bar>"
    by (metis abs_mult abs_of_pos s)
  ultimately show ?thesis by simp
qed

section \<open>Rationals near a double round to it\<close>

lemma rnd_even_near: "\<bar>m - of_int j\<bar> < 1 / 2 \<Longrightarrow> rnd_even m = j"
proof -
  assume a: "\<bar>m - of_int j\<bar> < 1 / 2"
  have "\<bar>of_int (rnd_even m) - m\<bar> \<le> 1 / 2" by (rule rnd_even_dist)
  with a have "of_int (rnd_even m) < (of_int (j + 1) :: rat)" "(of_int j :: rat) < of_int (rnd_even m + 1)"
    unfolding abs_le_iff abs_less_iff of_int_add of_int_1 by linarith+
  then have "rnd_even m < j + 1" "j < rnd_even m + 1" by (simp_all only: of_int_less_iff)
  then show ?thesis by simp
qed

text \<open>Two points of one grid closer than its spacing are equal.\<close>

lemma grid_close:
  assumes "x = of_int i * s" "y = of_int j * s" "0 < s" "\<bar>x - y\<bar> < (s :: rat)"
  shows "x = y"
proof -
  have "\<bar>of_int i - of_int j\<bar> * s < 1 * s" using assms by (simp add: abs_mult left_diff_distrib [symmetric])
  then have "\<bar>of_int (i - j)\<bar> < (1 :: rat)" using assms(3) by (simp only: mult_less_cancel_right) simp
  then have "i = j" by linarith
  then show ?thesis using assms by simp
qed

lemma grid_below:
  assumes "x = of_int i * s" "y = of_int j * s" "0 < s" "x < (y :: rat)"
  shows "x \<le> y - s"
proof -
  have "of_int i * s < of_int j * s" using assms by simp
  then have "i < j" using assms(3) by (simp only: mult_less_cancel_right) simp
  then have "of_int i * s \<le> of_int (j - 1) * s" using assms(3) by (intro mult_right_mono) simp_all
  then show ?thesis using assms by (simp add: left_diff_distrib)
qed

lemma f64_nearest_near:
  assumes "d = of_int j * 2 powi f64_quantum c" "\<bar>c - d\<bar> < 2 powi f64_quantum c / 2"
  shows "f64_nearest c = d"
proof -
  let ?s = "(2::rat) powi f64_quantum c"
  have "c / ?s - of_int j = (c - d) / ?s" using assms(1) by (simp add: diff_divide_distrib)
  then have "\<bar>c / ?s - of_int j\<bar> = \<bar>c - d\<bar> / ?s" by (simp add: abs_divide)
  also have "\<dots> < 1 / 2" using assms(2) by (simp add: divide_less_eq)
  finally show ?thesis using assms(1) by (simp add: f64_nearest_def rnd_even_near)
qed

lemma double_grid:
  assumes "0 < d" "round_f64 d = Fval d"
  shows "d = of_int (rnd_even (d / 2 powi f64_quantum d)) * 2 powi f64_quantum d"
    "d < 2 powi 1024" "f64_quantum d \<le> flog2 d"
proof -
  have n: "f64_nearest d = d" "\<not> 2 powi 1024 \<le> \<bar>f64_nearest d\<bar>"
    using assms by (simp_all add: round_f64_def split: if_splits)
  then show g: "d = of_int (rnd_even (d / 2 powi f64_quantum d)) * 2 powi f64_quantum d"
    by (simp add: f64_nearest_def)
  show "d < 2 powi 1024" using n assms(1) by simp
  have "0 < rnd_even (d / 2 powi f64_quantum d)"
    using assms(1) g by (metis of_int_0_less_iff quantum_pos zero_less_mult_pos2)
  then have "1 * 2 powi f64_quantum d \<le> d" by (subst g) (intro mult_right_mono; simp)
  then show "f64_quantum d \<le> flog2 d" using assms(1) by (intro flog2_ge) simp_all
qed

lemma round_f64_nearest_pos:
  "0 < c \<Longrightarrow> f64_nearest c = d \<Longrightarrow> 0 < d \<Longrightarrow> d < 2 powi 1024 \<Longrightarrow> round_f64 c = Fval d"
  by (simp add: round_f64_def)

text \<open>A rational within half a quantum of a positive double rounds to it, provided
  that, when the double is a power of two, it is within a quarter quantum (below a
  power of two the spacing halves).\<close>

lemma round_f64_near:
  assumes d: "0 < d" "round_f64 d = Fval d"
    and near: "\<bar>c - d\<bar> < 2 powi (f64_quantum d - 1)"
    and pow: "d = 2 powi flog2 d \<Longrightarrow> \<bar>c - d\<bar> < 2 powi (f64_quantum d - 2)"
  shows "round_f64 c = Fval d"
proof -
  define e where "e = f64_quantum d"
  define fl where "fl = flog2 d"
  define j where "j = rnd_even (d / 2 powi e)"
  have dj: "d = of_int j * 2 powi e" and dlt: "d < 2 powi 1024" and efl: "e \<le> fl"
    using double_grid [OF d] by (simp_all add: e_def fl_def j_def)
  have p2: "(2::rat) powi (x + y) = 2 powi x * 2 powi y" for x y by (simp add: power_int_add)
  have half: "(2::rat) powi (e - 1) = 2 powi e / 2" using p2 [of e "-1"] by simp
  have dge: "2 powi fl \<le> d" using flog2_bounds(1) [OF d(1)] by (simp add: fl_def)
  have dhi: "d < 2 powi (fl + 1)" using flog2_bounds(2) [OF d(1)] by (simp add: fl_def)
  have "(2::rat) powi e \<le> 2 powi fl" using efl by (intro power_int_increasing) simp_all
  moreover have "0 < (2::rat) powi e" by simp
  ultimately have cpos: "0 < c" using near dge half unfolding e_def [symmetric] abs_less_iff by linarith
  have quantum_c: "f64_quantum c = max (flog2 c - 52) (-1074)"
    using cpos by (simp add: f64_quantum_def)
  have quantum_d: "e = max (fl - 52) (-1074)" using d(1) by (simp add: e_def fl_def f64_quantum_def)
  have chi: "c < 2 powi (fl + 1)"
  proof (rule ccontr)
    assume "\<not> c < 2 powi (fl + 1)"
    moreover have "d \<le> 2 powi (fl + 1) - 2 powi e"
      using efl by (intro grid_below [OF dj powi_split [of e "fl + 1"]] dhi) simp_all
    ultimately have "2 powi e \<le> \<bar>c - d\<bar>" by simp
    with near half show False unfolding e_def [symmetric] using abs_ge_zero [of "c - d"] by linarith
  qed
  have fc: "flog2 c \<le> fl" using flog2_less [OF cpos chi] by simp
  show ?thesis
  proof (cases "f64_quantum c = e")
    case True
    then have "f64_nearest c = d"
      using near half dj unfolding e_def [symmetric] by (intro f64_nearest_near [of d j]) simp_all
    then show ?thesis by (rule round_f64_nearest_pos [OF cpos _ d(1) dlt])
  next
    case False
    then have "flog2 c < fl" "-1074 < e" using fc quantum_c quantum_d by auto
    then have cfl: "c < 2 powi fl" and e52: "e = fl - 52"
      using flog2_ge [OF cpos, of fl] quantum_d by (fastforce, simp)
    have "d = 2 powi fl"
    proof (rule grid_close [OF dj powi_split [of e fl]])
      show "\<bar>d - 2 powi fl\<bar> < 2 powi e" using near half cfl dge unfolding e_def [symmetric] by simp
    qed (simp_all add: efl)
    then have near4: "\<bar>c - d\<bar> < 2 powi (e - 2)" using pow by (simp add: e_def fl_def)
    have q4: "(2::rat) powi (e - 2) \<le> 2 powi (fl - 1)" using e52 by (intro power_int_increasing) simp_all
    have "2 powi (fl - 1) \<le> c"
    proof -
      have "(2::rat) powi fl = 2 * 2 powi (fl - 1)" using p2 [of "fl - 1" 1] by simp
      moreover have "0 < (2::rat) powi (fl - 1)" by simp
      ultimately show ?thesis using near4 q4 \<open>d = 2 powi fl\<close> unfolding abs_less_iff by linarith
    qed
    then have "fl - 1 \<le> flog2 c" using cpos by (rule flog2_ge [rotated])
    then have qc: "f64_quantum c = e - 1"
      using quantum_c \<open>flog2 c < fl\<close> \<open>-1074 < e\<close> e52 by (simp add: max_def)
    have "d = of_int (2 * 2 ^ 52) * 2 powi (e - 1)"
      using \<open>d = 2 powi fl\<close> e52 p2 [of "e - 1" 53] by simp
    moreover have "(2::rat) powi (e - 2) = 2 powi (e - 1) / 2" using p2 [of "e - 1" "-1"] by simp
    ultimately have "f64_nearest c = d" using near4 qc by (intro f64_nearest_near [of d]) simp_all
    then show ?thesis by (rule round_f64_nearest_pos [OF cpos _ d(1) dlt])
  qed
qed

text \<open>Seventeen significant digits always suffice: the nearest 17-digit decimal is
  within \<open>d / (2 * 10^16)\<close> of \<open>d\<close>, and \<open>2^54 < 2 * 10^16\<close>.\<close>

lemma dec_round_17:
  assumes d: "0 < d" "round_f64 d = Fval d"
  shows "round_f64 (dec_value (dec_round 17 d)) = Fval d"
proof (rule round_f64_near [OF d])
  let ?c = "dec_value (dec_round 17 d)" and ?X = "(2::rat) powi flog2 d"
  have "\<bar>?c - d\<bar> \<le> 10 powi (flog10 d - 16) / 2" using dec_round_err [of 17 d] by simp
  moreover have "(10::rat) powi (flog10 d - 16) = 10 powi flog10 d / 10000000000000000"
    by (simp add: power_int_diff)
  moreover have "10 powi flog10 d \<le> d" using flog10_bounds(1) [OF d(1)] .
  ultimately have err: "\<bar>?c - d\<bar> \<le> d / 20000000000000000" by simp
  have p2: "(2::rat) powi (flog2 d - k) = ?X / 2 ^ k" for k :: nat by (simp add: power_int_diff)
  have X: "0 < ?X" "d < 2 * ?X"
    using flog2_bounds(2) [OF d(1)] by (simp_all add: power_int_add)
  have q: "flog2 d - 52 \<le> f64_quantum d" using d(1) by (simp add: f64_quantum_def)
  have "(2::rat) powi (flog2 d - 53) \<le> 2 powi (f64_quantum d - 1)"
    using q by (intro power_int_increasing) simp_all
  moreover have "(2::rat) powi (flog2 d - 53) = ?X / 9007199254740992" using p2 [of 53] by simp
  ultimately show "\<bar>?c - d\<bar> < 2 powi (f64_quantum d - 1)" using err X by linarith
  assume pow: "d = ?X"
  have "(2::rat) powi (flog2 d - 54) \<le> 2 powi (f64_quantum d - 2)"
    using q by (intro power_int_increasing) simp_all
  moreover have "(2::rat) powi (flog2 d - 54) = ?X / 18014398509481984" using p2 [of 54] by simp
  ultimately show "\<bar>?c - d\<bar> < 2 powi (f64_quantum d - 2)" using err X pow by linarith
qed

lemma dec_pick_Some:
  "dec_pick p q = Some c \<Longrightarrow>
   round_f64 (dec_value c) = Fval q \<and> fst (dec_round p q) - 1 \<le> fst c"
  by (auto simp: dec_pick_def Let_def split: if_splits)

lemma shortest_dec_cases:
  "\<exists>p. 1 \<le> p \<and> (shortest_dec q = dec_round p q \<or> dec_pick p q = Some (shortest_dec q))"
proof (cases "find (\<lambda>p. dec_pick p q \<noteq> None) [1..<18]")
  case None
  then show ?thesis by (intro exI [of _ 17]) (simp add: shortest_dec_def)
next
  case (Some p)
  then have "1 \<le> p" "dec_pick p q \<noteq> None" by (auto simp: find_Some_iff)
  then obtain c where "1 \<le> p" "dec_pick p q = Some c" by auto
  then show ?thesis using Some by (intro exI [of _ p]) (simp add: shortest_dec_def)
qed

lemma shortest_dec_round:
  assumes "0 < d" "round_f64 d = Fval d"
  shows "round_f64 (dec_value (shortest_dec d)) = Fval d"
proof (cases "find (\<lambda>p. dec_pick p d \<noteq> None) [1..<18]")
  case None
  then have "dec_pick 17 d = None"
    using find_None_iff [of "\<lambda>p. dec_pick p d \<noteq> None" "[1..<18]"] by (cases "dec_pick 17 d") auto
  then show ?thesis using dec_round_17 [OF assms] by (simp add: dec_pick_def)
next
  case (Some p)
  then obtain c where "dec_pick p d = Some c" by (auto simp: find_Some_iff)
  then show ?thesis using Some dec_pick_Some [of p d c] by (simp add: shortest_dec_def)
qed

section \<open>Reading the printed decimal back\<close>

lemma dec_digit_not_sep [simp]:
  "is_dec_digit c \<Longrightarrow> c \<noteq> CHR ''.'' \<and> c \<noteq> CHR ''e'' \<and> c \<noteq> CHR ''-'' \<and> c \<noteq> CHR ''+'' \<and>
     c \<noteq> CHR '','' \<and> c \<noteq> CHR '')''"
  by (auto simp: is_dec_digit_def)

lemma is_dec_digit_0 [simp]: "is_dec_digit CHR ''0''"
  by (simp add: is_dec_digit_def)

lemma digits_val_Nil [simp]: "digits_val [] = 0"
  by (simp add: digits_val_def)

lemma digits_val_zeros_right: "digits_val (s @ replicate j CHR ''0'') = digits_val s * 10 ^ j"
  using digits_val_zeros [of j "[]"] by (simp add: digits_val_append)

lemma pow10_shift: "(10::rat) powi (x - int n) = 10 powi x / 10 ^ n"
  by (simp add: power_int_diff power_int_of_nat)

text \<open>The shape of every decimal \<open>repr\<close> writes: integer digits, an optional point
  and fraction digits, an optional exponent.\<close>

lemma parse_decimal_split:
  assumes "\<forall>c \<in> set ip. is_dec_digit c" "\<forall>c \<in> set fp. is_dec_digit c" "ip \<noteq> []"
    and "pt = [] \<and> fp = [] \<or> pt = [CHR ''.'']"
    and "ex = [] \<and> x = 0 \<or> (\<exists>xs. ex = CHR ''e'' # xs \<and> parse_exp xs = Some x)"
  shows "parse_decimal (ip @ pt @ fp @ ex) =
           Some (of_nat (digits_val (ip @ fp)) * 10 powi (x - int (length fp)))"
proof -
  have hd: "hd (ip @ pt @ fp @ ex) \<noteq> CHR ''-''" using assms(1,3) by (cases ip) simp_all
  have tw: "takeWhile (\<lambda>c. c \<noteq> CHR ''e'') (ip @ pt @ fp @ ex) = ip @ pt @ fp"
    "dropWhile (\<lambda>c. c \<noteq> CHR ''e'') (ip @ pt @ fp @ ex) = ex"
    using assms(1,2,4,5) by (auto simp: takeWhile_append2 dropWhile_append2)
  have tp: "takeWhile (\<lambda>c. c \<noteq> CHR ''.'') (ip @ pt @ fp) = ip"
    "drop 1 (dropWhile (\<lambda>c. c \<noteq> CHR ''.'') (ip @ pt @ fp)) = fp"
    using assms(1,2,4) by (auto simp: takeWhile_append2 dropWhile_append2)
  have pd: "parse_digits (ip @ fp) = Some (digits_val (ip @ fp))"
    using assms(1-3) by (auto simp: parse_digits_def)
  have "(if ex = [] then Some 0 else parse_exp (tl ex)) = Some x" using assms(5) by auto
  then show ?thesis
    using hd assms(3) unfolding parse_decimal_def parse_unsigned_def Let_def tw tp pd
    by (simp add: pow10_shift)
qed

lemma pad2_props: "pad2 s \<noteq> []" "digits_val (pad2 s) = digits_val s"
  "\<forall>c \<in> set s. is_dec_digit c \<Longrightarrow> \<forall>c \<in> set (pad2 s). is_dec_digit c"
  using digits_val_zeros [of 1 s] by (auto simp: pad2_def)

lemma parse_exp_repr: "parse_exp ((if x < 0 then ''-'' else ''+'') @ pad2 (dec_digits (nat \<bar>x\<bar>))) = Some x"
proof -
  have "parse_digits (pad2 (dec_digits (nat \<bar>x\<bar>))) = Some (nat \<bar>x\<bar>)"
    using pad2_props [of "dec_digits (nat \<bar>x\<bar>)"] dec_digits_is_dec_digit
    by (auto simp: parse_digits_def)
  then show ?thesis by (cases "x < 0") (simp_all add: parse_exp_def abs_if)
qed

lemma parse_fmt_repr:
  assumes ds: "ds \<noteq> []" "\<forall>c \<in> set ds. is_dec_digit c"
  shows "parse_decimal (fmt_repr ds decpt) =
           Some (of_nat (digits_val ds) * 10 powi (decpt - int (length ds)))"
proof -
  have hd_tl: "[hd ds] @ tl ds = ds" using ds(1) by simp
  have dig_hd: "\<forall>c \<in> set [hd ds]. is_dec_digit c" "\<forall>c \<in> set (tl ds). is_dec_digit c"
    using ds by (cases ds; simp)+
  show ?thesis
  proof (cases "decpt \<le> -4 \<or> 16 < decpt")
    case True
    let ?ex = "CHR ''e'' # (if decpt - 1 < 0 then ''-'' else ''+'') @ pad2 (dec_digits (nat \<bar>decpt - 1\<bar>))"
    let ?pt = "if tl ds = [] then [] else [CHR ''.'']"
    have "fmt_repr ds decpt = [hd ds] @ ?pt @ tl ds @ ?ex" using True by (simp add: fmt_repr_def)
    moreover have "parse_decimal ([hd ds] @ ?pt @ tl ds @ ?ex) =
        Some (of_nat (digits_val ([hd ds] @ tl ds)) * 10 powi (decpt - 1 - int (length (tl ds))))"
      using dig_hd parse_exp_repr [of "decpt - 1"] by (intro parse_decimal_split) auto
    ultimately show ?thesis using ds(1) by (simp only: hd_tl) (cases ds; simp add: diff_diff_eq)
  next
    case out: False
    show ?thesis
    proof (cases "decpt \<le> 0")
      case True
      let ?fp = "replicate (nat (- decpt)) CHR ''0'' @ ds"
      have "fmt_repr ds decpt = ''0'' @ [CHR ''.''] @ ?fp @ []" using out True by (simp add: fmt_repr_def)
      moreover have "parse_decimal (''0'' @ [CHR ''.''] @ ?fp @ []) =
          Some (of_nat (digits_val (''0'' @ ?fp)) * 10 powi (0 - int (length ?fp)))"
        using ds(2) by (intro parse_decimal_split) auto
      moreover have "digits_val (''0'' @ ?fp) = digits_val ds"
        using digits_val_zeros [of "Suc (nat (- decpt))" ds] by simp
      ultimately show ?thesis using True by simp
    next
      case pos: False
      show ?thesis
      proof (cases "decpt < int (length ds)")
        case True
        let ?i = "nat decpt"
        have "fmt_repr ds decpt = take ?i ds @ [CHR ''.''] @ drop ?i ds @ []"
          using out pos True by (simp add: fmt_repr_def)
        moreover have "take ?i ds \<noteq> []" using pos ds(1) by simp
        moreover have "\<forall>c \<in> set (take ?i ds). is_dec_digit c" "\<forall>c \<in> set (drop ?i ds). is_dec_digit c"
          using ds(2) by (auto dest: in_set_takeD in_set_dropD)
        ultimately have "parse_decimal (fmt_repr ds decpt) =
            Some (of_nat (digits_val (take ?i ds @ drop ?i ds)) * 10 powi (0 - int (length (drop ?i ds))))"
          by (simp only:) (intro parse_decimal_split; simp)
        then show ?thesis using pos True by simp
      next
        case False
        let ?j = "nat (decpt - int (length ds))"
        let ?ip = "ds @ replicate ?j CHR ''0''"
        have "fmt_repr ds decpt = ?ip @ [CHR ''.''] @ ''0'' @ []"
          using out pos False by (simp add: fmt_repr_def)
        moreover have "parse_decimal (?ip @ [CHR ''.''] @ ''0'' @ []) =
            Some (of_nat (digits_val (?ip @ ''0'')) * 10 powi (0 - int (length ''0'')))"
          using ds by (intro parse_decimal_split) auto
        moreover have "digits_val (?ip @ ''0'') = digits_val ds * 10 ^ Suc ?j"
          using digits_val_zeros_right [of ds "Suc ?j"] by (simp add: replicate_append_same)
        moreover have "(10::rat) ^ Suc ?j * 10 powi (0 - int (length ''0'')) = 10 powi (decpt - int (length ds))"
        proof -
          have jj: "int ?j = decpt - int (length ds)" using False by simp
          have m1: "0 - int (length ''0'') = -1" by simp
          have "(10::rat) ^ Suc j * 10 powi (- 1) = 10 ^ j" for j by simp
          then have "(10::rat) ^ Suc ?j * 10 powi (0 - int (length ''0'')) = 10 ^ ?j"
            by (simp only: m1)
          also have "\<dots> = 10 powi (decpt - int (length ds))" by (rule power_int_of_nat [of "10::rat" ?j, unfolded jj, symmetric])
          finally show ?thesis .
        qed
        ultimately show ?thesis by (simp add: mult.assoc)
      qed
    qed
  qed
qed

lemma strip_zeros_value:
  "of_nat (fst (strip_zeros m k)) * (10::rat) powi snd (strip_zeros m k) = of_nat m * 10 powi k"
proof (induction m k rule: strip_zeros.induct)
  case (1 m k)
  show ?case
  proof (cases "m \<noteq> 0 \<and> m mod 10 = 0")
    case True
    then have "m = 10 * (m div 10)" using div_mult_mod_eq [of m 10] by simp
    then have "(of_nat m :: rat) = of_nat (m div 10) * 10" by (metis mult.commute of_nat_mult of_nat_numeral)
    moreover have "strip_zeros m k = strip_zeros (m div 10) (k + 1)"
      using True by (subst strip_zeros.simps) simp
    ultimately show ?thesis using "1.IH" [OF True] by (simp add: power_int_add)
  next
    case False
    then have "strip_zeros m k = (m, k)" by (subst strip_zeros.simps) auto
    then show ?thesis by simp
  qed
qed

lemma dec_round_pos: "0 < q \<Longrightarrow> 1 \<le> p \<Longrightarrow> 1 \<le> fst (dec_round p q)"
proof -
  assume q: "0 < q" and p: "1 \<le> p"
  let ?k = "flog10 q - int p + 1"
  have "(10::rat) powi ?k \<le> 10 powi flog10 q" using p by (intro power_int_increasing) simp_all
  then have "10 powi ?k \<le> q" using flog10_bounds(1) [OF q] by simp
  then have "of_int 1 \<le> q / 10 powi ?k" by simp
  then show ?thesis by (simp add: dec_round_def Let_def rnd_even_ge)
qed

lemma shortest_dec_nonneg: "0 < q \<Longrightarrow> 0 \<le> fst (shortest_dec q)"
  using shortest_dec_cases [of q] dec_round_pos [of q] dec_pick_Some by fastforce

lemma parse_repr_pos: "0 < q \<Longrightarrow> parse_decimal (repr_pos q) = Some (dec_value (shortest_dec q))"
proof -
  assume q: "0 < q"
  obtain m k where sd: "shortest_dec q = (m, k)" by (cases "shortest_dec q")
  obtain m' k' where st: "strip_zeros (nat m) k = (m', k')" by (cases "strip_zeros (nat m) k")
  have m: "0 \<le> m" using shortest_dec_nonneg [OF q] sd by simp
  have "parse_decimal (repr_pos q) = Some (of_nat m' * 10 powi k')"
    using parse_fmt_repr [of "dec_digits m'"] dec_digits_is_dec_digit [of _ m']
    by (simp add: repr_pos_def dtoa_shortest_def sd st)
  also have "of_nat m' * (10::rat) powi k' = of_nat (nat m) * 10 powi k"
    using strip_zeros_value [of "nat m" k] st by simp
  finally show ?thesis using m by (simp add: dec_value_def sd)
qed

lemma parse_decimal_specials:
  "parse_decimal ''nan'' = None" "parse_decimal ''inf'' = None" "parse_decimal ''-inf'' = None"
  by (simp_all add: parse_decimal_def parse_unsigned_def parse_digits_def is_dec_digit_def)

lemma py_float_repr_pos:
  assumes "0 < d" "round_f64 d = Fval d"
  shows "py_float (repr_pos d) = Some (Fval d)"
proof -
  have p: "parse_decimal (repr_pos d) = Some (dec_value (shortest_dec d))"
    using parse_repr_pos [OF assms(1)] .
  then have "repr_pos d \<noteq> ''nan''" "repr_pos d \<noteq> ''inf''" "repr_pos d \<noteq> ''-inf''"
    using parse_decimal_specials by (metis option.distinct(1))+
  then show ?thesis unfolding py_float_def using p shortest_dec_round [OF assms] by simp
qed

section \<open>Signs and idempotence of rounding\<close>

lemma rnd_even_uminus: "rnd_even (- m) = - rnd_even m"
proof (cases "m = of_int \<lfloor>m\<rfloor>")
  case True
  then show ?thesis by (metis rnd_even_int of_int_minus)
next
  case False
  define f where "f = \<lfloor>m\<rfloor>"
  have r: "0 < m - of_int f" "m - of_int f < 1"
    using False of_int_floor_le [of m] floor_correct [of m] unfolding f_def by linarith+
  then have fl: "\<lfloor>- m\<rfloor> = - f - 1" by (simp add: floor_eq_iff)
  have "- m - of_int (- f - 1) = 1 - (m - of_int f)" by simp
  then show ?thesis using r unfolding rnd_even_def Let_def fl f_def [symmetric]
    by (auto simp: even_minus)
qed

lemma f64_nearest_uminus: "f64_nearest (- q) = - f64_nearest q"
  by (simp add: f64_nearest_def f64_quantum_def rnd_even_uminus)

lemma round_f64_uminus: "round_f64 q = Fval r \<Longrightarrow> round_f64 (- q) = Fval (- r)"
  by (auto simp: round_f64_def f64_nearest_uminus split: if_splits)

lemma flog2_powi [simp]: "flog2 (2 powi k) = k"
  using flog2_ge [of "2 powi k" k] flog2_less [of "2 powi k" "k + 1"] by (simp add: power_int_add)

lemma rnd_even_small: "0 \<le> m \<Longrightarrow> m < 1 / 2 \<Longrightarrow> rnd_even m = 0"
  using rnd_even_near [of m 0] by simp

text \<open>A rounded value is a double: rounding it again changes nothing.\<close>

lemma round_f64_idem_pos:
  assumes q: "0 < q" and r: "round_f64 q = Fval r"
  shows "round_f64 r = Fval r"
proof -
  define e where "e = f64_quantum q"
  define fl where "fl = flog2 q"
  have rn: "r = f64_nearest q" and rlt: "\<bar>r\<bar> < 2 powi 1024"
    using r q by (auto simp: round_f64_def split: if_splits)
  have qe: "e = max (fl - 52) (-1074)" using q by (simp add: e_def fl_def f64_quantum_def)
  have qlo: "2 powi fl \<le> q" and qhi: "q < 2 powi (fl + 1)"
    using flog2_bounds [OF q] by (simp_all add: fl_def)
  have grid: "\<exists>j. r = of_int j * 2 powi f64_quantum r"
  proof (cases "e \<le> fl + 1")
    case False
    have "q / 2 powi e < 1 / 2"
    proof -
      have "(2::rat) powi (fl + 1) \<le> 2 powi (e - 1)" using False by (intro power_int_increasing) simp_all
      moreover have "(2::rat) powi (e - 1) = 2 powi e / 2" by (simp add: power_int_diff)
      ultimately show ?thesis using qhi by (simp add: divide_less_eq)
    qed
    then have "r = 0" using rn q by (simp add: f64_nearest_def e_def rnd_even_small)
    then show ?thesis by (intro exI [of _ 0]) simp
  next
    case True
    have top: "r \<le> 2 powi (fl + 1)"
      using f64_nearest_le_grid [of q "2 ^ nat (fl + 1 - e)"] powi_split [OF True] qhi rn
      unfolding e_def by simp
    show ?thesis
    proof (cases "r = 2 powi (fl + 1)")
      case True
      have "f64_quantum r \<le> fl + 1" using \<open>e \<le> fl + 1\<close> qe by (simp add: True f64_quantum_def)
      then show ?thesis using True powi_split by blast
    next
      case False
      show ?thesis
      proof (cases "e \<le> fl")
        case True
        have "2 powi fl \<le> r"
          using f64_nearest_ge_grid [of "2 ^ nat (fl - e)" q] powi_split [OF True] qlo rn
          unfolding e_def by simp
        moreover have "(0::rat) < 2 powi fl" by simp
        ultimately have r0: "0 < r" by linarith
        have "r < 2 powi (fl + 1)" using top False by simp
        then have "flog2 r = fl"
          using flog2_ge [OF r0 \<open>2 powi fl \<le> r\<close>] flog2_less [OF r0] by fastforce
        then have "f64_quantum r = e" using qe r0 by (simp add: f64_quantum_def)
        then show ?thesis using rn by (simp add: f64_nearest_def e_def)
      next
        case False
        then have e: "e = -1074" "fl + 1 = -1074" using \<open>e \<le> fl + 1\<close> qe by simp_all
        have "r \<le> 2 powi (-1074)" using top e by simp
        moreover have "r = of_int (rnd_even (q / 2 powi e)) * 2 powi e" using rn by (simp add: f64_nearest_def e_def)
        moreover have "f64_quantum r = -1074 \<or> r = 0"
        proof (cases "r = 0")
          case False
          have "0 < r" using rn q f64_nearest_ge_grid [of 0 q] False by simp
          then have "flog2 r \<le> -1074" using top e flog2_less [of r "-1073"] by simp
          then show ?thesis using \<open>0 < r\<close> by (simp add: f64_quantum_def)
        qed simp
        ultimately show ?thesis using e by (metis mult_zero_left of_int_0)
      qed
    qed
  qed
  then have "f64_nearest r = r" using f64_nearest_exact by blast
  moreover have "0 \<le> r" using rn q f64_nearest_ge_grid [of 0 q] by simp
  ultimately show ?thesis using rlt by (simp add: round_f64_def)
qed

lemma round_f64_idem: "round_f64 q = Fval r \<Longrightarrow> round_f64 r = Fval r"
proof -
  assume a: "round_f64 q = Fval r"
  consider "0 < q" | "q = 0" | "q < 0" by linarith
  then show ?thesis
  proof cases
    case 1
    then show ?thesis using a by (rule round_f64_idem_pos)
  next
    case 2
    then show ?thesis using a by (simp add: round_f64_def)
  next
    case 3
    then have "round_f64 (- r) = Fval (- r)" using round_f64_uminus [OF a] by (intro round_f64_idem_pos) simp_all
    then show ?thesis using round_f64_uminus [of "- r" "- r"] by simp
  qed
qed

lemma fmt_repr_hd:
  assumes "ds \<noteq> []" "\<forall>c \<in> set ds. is_dec_digit c"
  shows "fmt_repr ds decpt \<noteq> [] \<and> hd (fmt_repr ds decpt) \<noteq> CHR ''-''"
  using assms by (cases ds) (auto simp: fmt_repr_def)

lemma repr_pos_hd: "repr_pos q \<noteq> [] \<and> hd (repr_pos q) \<noteq> CHR ''-''"
  using fmt_repr_hd [OF dec_digits_ne] dec_digits_is_dec_digit
  by (simp add: repr_pos_def dtoa_shortest_def split: prod.split)

lemma py_float_repr_neg:
  assumes "0 < d" "round_f64 d = Fval d"
  shows "py_float (CHR ''-'' # repr_pos d) = Some (Fval (- d))"
proof -
  have p: "parse_decimal (repr_pos d) = Some (dec_value (shortest_dec d))"
    using parse_repr_pos [OF assms(1)] .
  then have u: "parse_unsigned (repr_pos d) = Some (dec_value (shortest_dec d))"
    using repr_pos_hd [of d] by (simp add: parse_decimal_def)
  have "repr_pos d \<noteq> ''inf''" using p parse_decimal_specials(2) by (metis option.distinct(1))
  then have "CHR ''-'' # repr_pos d \<noteq> ''-inf''" by simp
  moreover have "round_f64 (- dec_value (shortest_dec d)) = Fval (- d)"
    using round_f64_uminus [OF shortest_dec_round [OF assms]] .
  ultimately show ?thesis unfolding py_float_def using u by (simp add: parse_decimal_def)
qed

lemma py_float_repr_f64: "round_f64 d = Fval d \<Longrightarrow> py_float (repr_f64 (Fval d)) = Some (Fval d)"
proof -
  assume dd: "round_f64 d = Fval d"
  consider "0 < d" | "d = 0" | "d < 0" by linarith
  then show ?thesis
  proof cases
    case 1
    then show ?thesis using py_float_repr_pos [OF 1 dd] by simp
  next
    case 2
    then show ?thesis by (simp add: py_float_def parse_decimal_def parse_unsigned_def
        parse_digits_def parse_exp_def is_dec_digit_def digits_val_def digit_val_def round_f64_def)
  next
    case 3
    have "round_f64 (- d) = Fval (- d)" using round_f64_uminus [OF dd] .
    then show ?thesis using py_float_repr_neg [of "- d"] 3 by simp
  qed
qed

lemma to_f64_repr_roundtrip: "py_float (repr_f64 (to_f64 v)) = Some (to_f64 v)"
proof (cases v)
  case (Fval q)
  then show ?thesis
  proof (cases "round_f64 q")
    case (Fval r)
    then show ?thesis using \<open>v = Fval q\<close> py_float_repr_f64 [OF round_f64_idem] by (simp add: to_f64_def)
  qed (simp_all add: to_f64_def py_float_def)
qed (simp_all add: to_f64_def py_float_def)

lemma parse_shape2_repr: "parse_shape2 (repr_shape2 a b) = Some (a, b)"
proof -
  let ?A = "dec_digits a" and ?B = "dec_digits b"
  have dA: "\<forall>c \<in> set ?A. is_dec_digit c" and dB: "\<forall>c \<in> set ?B. is_dec_digit c"
    using dec_digits_is_dec_digit by blast+
  have body: "butlast (tl (repr_shape2 a b)) = ?A @ '', '' @ ?B" by (simp add: repr_shape2_def butlast_append)
  have tw: "takeWhile (\<lambda>c. c \<noteq> CHR '','') (?A @ '', '' @ ?B) = ?A"
    "drop 2 (dropWhile (\<lambda>c. c \<noteq> CHR '','') (?A @ '', '' @ ?B)) = ?B"
    using dA by (simp_all add: takeWhile_append2 dropWhile_append2)
  have "parse_digits ?A = Some a" "parse_digits ?B = Some b"
    using dA dB by (simp_all add: parse_digits_def)
  then show ?thesis unfolding parse_shape2_def Let_def body tw by (simp add: repr_shape2_def)
qed

section \<open>What main writes\<close>

lemma main_after_load_rows:
  assumes "forward_contract col"
    and "fst (main_after_load col d) = [Line s1, Line s2, ShapeLine n k, AccuracyLine acc]"
  shows "n = 10000"
  using assms
  by (auto simp: main_after_load_def tbind_def lift_def emit_def shape2_def forward_contract_def
      test_shape_def reshape_rows_def dest: length_np_reshape4 split: sum.splits prod.splits list.splits)

lemma main_run_printed:
  assumes ld: "main_load fs = Inr (tri, trl, tei, tel)" and c: "length tri = 50000" "length tei = 10000"
    and fc: "forward_contract col" and ok: "run_experiment col tri trl tei tel 10 = Inr a"
  shows "\<exists>s1 s2 k. fst (main_run col fs) = [Line s1, Line s2, ShapeLine 10000 k, AccuracyLine (Fval a)]"
proof -
  note sh = main_load_shapes [OF ld]
  have run: "main_run col fs = main_after_load col (tri, trl, tei, tel)"
    using ld by (simp add: main_run_def)
  have r: "snd (main_after_load col (tri, trl, tei, tel)) = Inr ()"
    "last (fst (main_after_load col (tri, trl, tei, tel))) = AccuracyLine (Fval a)"
    using main_after_load_refines [OF c _ _ _ fc] sh ok by simp_all
  then obtain s1 s2 n k acc where
    o: "fst (main_after_load col (tri, trl, tei, tel)) = [Line s1, Line s2, ShapeLine n k, AccuracyLine acc]"
    using main_after_load_output by metis
  have "n = 10000" using main_after_load_rows [OF fc o] .
  with o r(2) run show ?thesis by auto
qed

section \<open>Rounding is monotone\<close>

lemma rnd_even_floor: "\<lfloor>m\<rfloor> \<le> rnd_even m" "rnd_even m \<le> \<lfloor>m\<rfloor> + 1"
  by (auto simp: rnd_even_def Let_def)

lemma rnd_even_mono: "a \<le> b \<Longrightarrow> rnd_even a \<le> rnd_even b"
proof -
  assume ab: "a \<le> b"
  show ?thesis
  proof (cases "\<lfloor>a\<rfloor> < \<lfloor>b\<rfloor>")
    case True
    then show ?thesis using rnd_even_floor [of a] rnd_even_floor [of b] by linarith
  next
    case False
    then have "\<lfloor>a\<rfloor> = \<lfloor>b\<rfloor>" using floor_mono [OF ab] by linarith
    then show ?thesis using ab unfolding rnd_even_def Let_def by (auto split: if_splits)
  qed
qed

lemma f64_nearest_nonneg: "0 \<le> q \<Longrightarrow> 0 \<le> f64_nearest q"
  using f64_nearest_ge_grid [of 0 q] by simp

lemma f64_nearest_small:
  assumes "0 < x" "flog2 x + 1 < f64_quantum x"
  shows "f64_nearest x = 0"
proof -
  let ?e = "f64_quantum x"
  have "(2::rat) powi (flog2 x + 1) \<le> 2 powi (?e - 1)" using assms(2) by (intro power_int_increasing) simp_all
  moreover have "(2::rat) powi (?e - 1) = 2 powi ?e / 2" by (simp add: power_int_diff)
  ultimately have "x / 2 powi ?e < 1 / 2" using flog2_bounds(2) [OF assms(1)] by (simp add: divide_less_eq)
  then show ?thesis using assms(1) by (simp add: f64_nearest_def rnd_even_small)
qed

lemma f64_nearest_mono:
  assumes x: "0 < x" and xy: "x \<le> y"
  shows "f64_nearest x \<le> f64_nearest y"
proof -
  have y: "0 < y" using x xy by simp
  let ?fx = "flog2 x" and ?fy = "flog2 y"
  have fxy: "?fx \<le> ?fy" using flog2_bounds(1) [OF x] xy by (intro flog2_ge [OF y]) simp
  have qx: "f64_quantum x = max (?fx - 52) (-1074)" and qy: "f64_quantum y = max (?fy - 52) (-1074)"
    using x y by (simp_all add: f64_quantum_def)
  show ?thesis
  proof (cases "f64_quantum x = f64_quantum y")
    case True
    have "x / 2 powi f64_quantum y \<le> y / 2 powi f64_quantum y" using xy by (simp add: divide_right_mono)
    then have "rnd_even (x / 2 powi f64_quantum y) \<le> rnd_even (y / 2 powi f64_quantum y)" by (rule rnd_even_mono)
    then show ?thesis unfolding f64_nearest_def True by (intro mult_right_mono) simp_all
  next
    case False
    then have ey: "f64_quantum y = ?fy - 52" and lt: "?fx < ?fy" using qx qy fxy by auto
    show ?thesis
    proof (cases "f64_quantum x \<le> ?fx + 1")
      case True
      have "f64_nearest x \<le> 2 powi (?fx + 1)"
        using f64_nearest_le_grid [of x "2 ^ nat (?fx + 1 - f64_quantum x)"] powi_split [OF True]
          flog2_bounds(2) [OF x] by simp
      also have "\<dots> \<le> 2 powi ?fy" using lt by (intro power_int_increasing) simp_all
      also have "\<dots> \<le> f64_nearest y"
        using f64_nearest_ge_grid [of "2 ^ nat (?fy - f64_quantum y)" y] powi_split [of "f64_quantum y" ?fy]
          flog2_bounds(1) [OF y] ey by simp
      finally show ?thesis .
    next
      case False
      then show ?thesis using f64_nearest_small [OF x] f64_nearest_nonneg [of y] y by simp
    qed
  qed
qed

text \<open>The rationals that read back as a double form an interval.\<close>

lemma round_f64_between:
  assumes x: "0 < x" and r: "round_f64 x = Fval d"
    and y: "x \<le> y \<and> y \<le> d \<or> d \<le> y \<and> y \<le> x"
  shows "round_f64 y = Fval d"
proof -
  have nx: "f64_nearest x = d" and dlt: "\<bar>d\<bar> < 2 powi 1024"
    using r x by (auto simp: round_f64_def split: if_splits)
  have d0: "0 \<le> d" using f64_nearest_nonneg [of x] x nx by simp
  have dd: "round_f64 d = Fval d" using round_f64_idem [OF r] .
  have nd: "0 < d \<Longrightarrow> f64_nearest d = d" using dd by (auto simp: round_f64_def split: if_splits)
  show ?thesis
  proof (cases "y = 0")
    case True
    then have "d = 0" using y x d0 by auto
    then show ?thesis using True by (simp add: round_f64_def)
  next
  case False
  then have ypos: "0 < y" using y x d0 by auto
  have "f64_nearest y = d"
    using y
  proof
    assume a: "x \<le> y \<and> y \<le> d"
    then have "0 < d" using x by simp
    then show ?thesis using f64_nearest_mono [OF x] f64_nearest_mono [OF ypos, of d] a nx nd by fastforce
  next
    assume a: "d \<le> y \<and> y \<le> x"
    have "f64_nearest y \<le> d" using f64_nearest_mono [OF ypos, of x] a nx by simp
    moreover have "d \<le> f64_nearest y"
    proof (cases "d = 0")
      case True
      then show ?thesis using f64_nearest_nonneg [of y] ypos by simp
    next
      case False
      then show ?thesis using f64_nearest_mono [of d y] a d0 nd by simp
    qed
    ultimately show ?thesis by simp
  qed
  then show ?thesis using ypos dlt by (simp add: round_f64_def)
  qed
qed

section \<open>The printed digits are the fewest\<close>

lemma round_f64_pos_arg: "round_f64 x = Fval d \<Longrightarrow> 0 < d \<Longrightarrow> 0 < x"
proof (rule ccontr)
  assume r: "round_f64 x = Fval d" and d: "0 < d" and "\<not> 0 < x"
  then consider "x = 0" | "x < 0" by linarith
  then show False
  proof cases
    case 1
    then show False using r d by (simp add: round_f64_def)
  next
    case 2
    have "round_f64 (- x) = Fval (- d)" using round_f64_uminus [OF r] .
    then have "f64_nearest (- x) = - d" using 2 by (auto simp: round_f64_def split: if_splits)
    then show False using f64_nearest_nonneg [of "- x"] 2 d by simp
  qed
qed

text \<open>If a decimal on the grid of \<open>p\<close>-digit decimals around \<open>d\<close> reads back as \<open>d\<close>,
  so does the neighbour of \<open>d\<close> on its side, and \<open>dec_pick\<close> finds one.\<close>

lemma dec_pick_grid:
  assumes d: "0 < d" "round_f64 d = Fval d"
    and x: "round_f64 (of_int n * 10 powi (flog10 d - int p + 1)) = Fval d"
  shows "dec_pick p d \<noteq> None"
proof -
  let ?k = "flog10 d - int p + 1"
  let ?s = "(10::rat) powi ?k" and ?x = "of_int n * (10::rat) powi ?k"
  let ?r = "rnd_even (d / ?s)" and ?f = "\<lfloor>d / ?s\<rfloor>"
  have s: "0 < ?s" by simp
  have xpos: "0 < ?x" using round_f64_pos_arg [OF x d(1)] .
  have r: "?f \<le> ?r" "?r \<le> ?f + 1" using rnd_even_floor [of "d / ?s"] by simp_all
  have "of_int ?f \<le> d / ?s" by (rule of_int_floor_le)
  then have "of_int ?f * ?s \<le> d" using pos_le_divide_eq [OF s] by blast
  moreover have "d < of_int (?f + 1) * ?s"
    using floor_correct [of "d / ?s"] s by (simp add: pos_divide_less_eq)
  ultimately have fl: "of_int ?f * ?s \<le> d" "d < of_int (?f + 1) * ?s" by simp_all
  have c: "dec_round p d = (?r, ?k)" by (simp add: dec_round_def Let_def)
  show ?thesis
  proof (cases "round_f64 (of_int ?r * ?s) = Fval d")
    case True
    then show ?thesis by (simp add: dec_pick_def c dec_value_def Let_def)
  next
    case False
    show ?thesis
    proof (cases "?x \<le> d")
      case True
      then have "n \<le> ?f" using s by (simp add: le_floor_iff pos_le_divide_eq)
      then have "?x \<le> of_int ?f * ?s" using s by (intro mult_right_mono) simp_all
      then have lo: "round_f64 (of_int ?f * ?s) = Fval d"
        using round_f64_between [OF xpos x] fl(1) by blast
      then have "?r \<noteq> ?f" using False by auto
      then have "?r = ?f + 1" using r by linarith
      then have "\<not> of_int ?r * ?s \<le> d" using fl(2) by simp
      then show ?thesis using lo \<open>?r = ?f + 1\<close> by (simp add: dec_pick_def c dec_value_def Let_def)
    next
      case above: False
      have "?f + 1 \<le> n"
      proof (rule ccontr)
        assume "\<not> ?f + 1 \<le> n"
        then have "of_int n * ?s \<le> of_int ?f * ?s" using s by (intro mult_right_mono) simp_all
        then show False using above fl(1) by linarith
      qed
      then have "of_int (?f + 1) * ?s \<le> ?x" using s by (intro mult_right_mono) simp_all
      then have hi: "round_f64 (of_int (?f + 1) * ?s) = Fval d"
        using round_f64_between [OF xpos x] fl(2) by (meson less_imp_le)
      show ?thesis
      proof (cases "of_int ?f * ?s = d")
        case True
        then have "?r = ?f" using s by (metis nonzero_mult_div_cancel_right rnd_even_int less_irrefl)
        then show ?thesis using False True d(2) by simp
      next
        case off: False
        have "?r \<noteq> ?f + 1" using False hi by auto
        then have "?r = ?f" using r by linarith
        then show ?thesis using hi fl(1) by (simp add: dec_pick_def c dec_value_def Let_def)
      qed
    qed
  qed
qed

lemma pow10_split: "k \<le> j \<Longrightarrow> (10::rat) powi j = of_int (10 ^ nat (j - k)) * 10 powi k"
proof -
  assume "k \<le> j"
  then have e: "j - k = int (nat (j - k))" by simp
  have "(10::rat) powi j = 10 powi (j - k) * 10 powi k" by (simp add: power_int_add [symmetric])
  also have "(10::rat) powi (j - k) = of_int (10 ^ nat (j - k))"
    by (subst e) (simp only: power_int_of_nat of_int_power of_int_numeral)
  finally show ?thesis .
qed

text \<open>Any decimal of at most \<open>p\<close> significant digits that reads back as \<open>d\<close> makes
  \<open>dec_pick p d\<close> succeed.\<close>

lemma dec_pick_short:
  assumes d: "0 < d" "round_f64 d = Fval d" and x: "round_f64 (of_int n * 10 powi j) = Fval d"
    and n: "\<bar>n\<bar> < 10 ^ p" and p: "1 \<le> p"
  shows "dec_pick p d \<noteq> None"
proof -
  let ?k = "flog10 d - int p + 1"
  have xpos: "0 < of_int n * (10::rat) powi j" using round_f64_pos_arg [OF x d(1)] .
  moreover have "0 < (10::rat) powi j" by simp
  ultimately have "(0::rat) < of_int n" by (simp add: zero_less_mult_iff)
  then have npos: "0 < n" by simp
  show ?thesis
  proof (cases "?k \<le> j")
    case True
    then have eq: "of_int n * (10::rat) powi j = of_int (n * 10 ^ nat (j - ?k)) * 10 powi ?k"
      by (simp add: pow10_split [OF True])
    show ?thesis by (rule dec_pick_grid [OF d, of "n * 10 ^ nat (j - ?k)"]) (simp only: eq [symmetric] x)
  next
    case False
    have e: "flog10 d = ?k + int (p - 1)" using p by simp
    have "of_int n * (10::rat) powi j < of_int (10 ^ p) * 10 powi j"
      using n npos by (intro mult_strict_right_mono) simp_all
    also have "\<dots> = 10 powi (int p + j)" by (simp add: power_int_add)
    also have "\<dots> \<le> 10 powi flog10 d" using False p by (intro power_int_increasing) simp_all
    finally have lo: "of_int n * 10 powi j \<le> (10::rat) powi flog10 d" by simp
    have y: "(10::rat) powi flog10 d = of_int (10 ^ (p - 1)) * 10 powi ?k"
      by (subst e) (simp add: power_int_add)
    have rt: "round_f64 (10 powi flog10 d) = Fval d"
      using round_f64_between [OF xpos x] lo flog10_bounds(1) [OF d(1)] by blast
    show ?thesis by (rule dec_pick_grid [OF d, of "10 ^ (p - 1)"]) (simp only: y [symmetric] rt)
  qed
qed

lemma dec_pick_bounds:
  assumes c: "dec_pick p d = Some c" and d: "0 < d" and p: "1 \<le> p"
  shows "0 \<le> fst c \<and> fst c \<le> 10 ^ p"
proof -
  let ?k = "flog10 d - int p + 1"
  let ?s = "(10::rat) powi ?k" and ?r = "rnd_even (d / 10 powi ?k)"
  have s: "0 < ?s" by simp
  have "d < 10 powi (flog10 d + 1)" using flog10_bounds(2) [OF d] .
  also have "(10::rat) powi (flog10 d + 1) = 10 powi (int p + ?k)" by simp
  also have "\<dots> = 10 powi int p * ?s" by (rule power_int_add) simp
  also have "(10::rat) powi int p = of_int (10 ^ p)" by simp
  finally have dlt: "d < of_int (10 ^ p) * ?s" .
  then have "d / ?s \<le> of_int (10 ^ p)" using s by (simp add: pos_divide_le_eq)
  then have rle: "?r \<le> 10 ^ p" by (rule rnd_even_le)
  have r1: "1 \<le> ?r" using dec_round_pos [OF d p] by (simp add: dec_round_def Let_def)
  have "of_int ?r * ?s \<le> d \<Longrightarrow> ?r < 10 ^ p"
  proof -
    assume "of_int ?r * ?s \<le> d"
    then have "of_int ?r * ?s < of_int (10 ^ p) * ?s" using dlt by linarith
    then have "(of_int ?r :: rat) < of_int (10 ^ p)" using s by (rule mult_right_less_imp_less [OF _ less_imp_le])
    then show ?thesis by (simp only: of_int_less_iff)
  qed
  then show ?thesis using c rle r1
    by (auto simp: dec_pick_def dec_round_def dec_value_def Let_def split: if_splits)
qed

lemma dec_digits_length_le: "n < 10 ^ p \<Longrightarrow> 1 \<le> p \<Longrightarrow> length (dec_digits n) \<le> p"
proof (cases "n = 0")
  case True
  then show "1 \<le> p \<Longrightarrow> ?thesis" by (subst dec_digits.simps) simp
next
  case False
  assume lt: "n < 10 ^ p"
  have "10 ^ (length (dec_digits n) - 1) \<le> n" using dec_digits_bounds [of n] False by simp
  have "length (dec_digits n) - 1 < p"
  proof (rule ccontr)
    assume "\<not> length (dec_digits n) - 1 < p"
    then have "(10::nat) ^ p \<le> 10 ^ (length (dec_digits n) - 1)" by (intro power_increasing) simp_all
    then show False using \<open>10 ^ (length (dec_digits n) - 1) \<le> n\<close> lt by linarith
  qed
  then show "1 \<le> p \<Longrightarrow> ?thesis" by simp
qed

lemma strip_zeros_le: "fst (strip_zeros m k) \<le> m"
proof (induction m k rule: strip_zeros.induct)
  case (1 m k)
  show ?case
  proof (cases "m \<noteq> 0 \<and> m mod 10 = 0")
    case True
    then have "strip_zeros m k = strip_zeros (m div 10) (k + 1)" by (subst strip_zeros.simps) simp
    then show ?thesis using "1.IH" [OF True] div_le_dividend [of m 10] by simp
  next
    case False
    then have "strip_zeros m k = (m, k)" by (subst strip_zeros.simps) auto
    then show ?thesis by simp
  qed
qed

lemma strip_zeros_digits:
  assumes "m \<le> 10 ^ p" "1 \<le> p"
  shows "length (dec_digits (fst (strip_zeros m k))) \<le> p"
proof (cases "m = 10 ^ p")
  case True
  obtain q where q: "p = Suc q" using assms(2) by (cases p) auto
  have "m \<noteq> 0 \<and> m mod 10 = 0" using True q by simp
  then have "strip_zeros m k = strip_zeros (m div 10) (k + 1)" by (subst strip_zeros.simps) simp
  then have "fst (strip_zeros m k) \<le> m div 10" using strip_zeros_le by simp
  also have "\<dots> < 10 ^ p" using True assms(2) by simp
  finally show ?thesis using assms(2) by (rule dec_digits_length_le)
next
  case False
  then have "fst (strip_zeros m k) < 10 ^ p" using assms(1) strip_zeros_le [of m k] by simp
  then show ?thesis using assms(2) by (rule dec_digits_length_le)
qed

lemma shortest_dec_first:
  assumes "0 < d" "round_f64 d = Fval d"
  shows "\<exists>p0. 1 \<le> p0 \<and> p0 \<le> 17 \<and> dec_pick p0 d = Some (shortest_dec d) \<and>
           (\<forall>p. 1 \<le> p \<longrightarrow> p < p0 \<longrightarrow> dec_pick p d = None)"
proof (cases "find (\<lambda>p. dec_pick p d \<noteq> None) [1..<18]")
  case None
  have "dec_pick 17 d \<noteq> None" using dec_round_17 [OF assms] by (simp add: dec_pick_def)
  then show ?thesis using None find_None_iff [of "\<lambda>p. dec_pick p d \<noteq> None" "[1..<18]"] by auto
next
  case (Some p0)
  then obtain i where i0: "i < length [1..<18]" "[1..<18] ! i = p0" "dec_pick p0 d \<noteq> None"
    "\<forall>j < i. \<not> dec_pick ([1..<18] ! j) d \<noteq> None"
    unfolding find_Some_iff by blast
  have i: "i < 17" "p0 = Suc i" "dec_pick p0 d \<noteq> None" using i0(1-3) by auto
  have "\<forall>j < i. dec_pick (Suc j) d = None"
  proof (intro allI impI)
    fix j assume j: "j < i"
    have "[1..<18] ! j = Suc j" using j i0(1) by simp
    then show "dec_pick (Suc j) d = None" using i0(4) j by metis
  qed
  from i(3) obtain c where c: "dec_pick p0 d = Some c" by auto
  have "\<forall>p. 1 \<le> p \<longrightarrow> p < p0 \<longrightarrow> dec_pick p d = None"
  proof (intro allI impI)
    fix p assume "1 \<le> p" "p < p0"
    then show "dec_pick p d = None" using i(2) \<open>\<forall>j < i. dec_pick (Suc j) d = None\<close> by (cases p) auto
  qed
  then show ?thesis using i c Some by (intro exI [of _ p0]) (simp add: shortest_dec_def)
qed

text \<open>A perfect score is printed as \<open>1.0\<close>, and \<open>1.0\<close> reads back as one.\<close>

lemma repr_f64_one: "repr_f64 (Fval 1) = ''1.0''"
proof -
  have r1: "round_f64 1 = Fval 1"
    using round_rate(1) [of 1] by (simp add: f64_nearest_one power_int_minus)
  have d1: "dec_digits (Suc 0) = ''1''" by (subst dec_digits.simps) (simp add: digit_char_def char_of_def bit_simps)
  have "flog10 1 = 0" using d1 by (simp add: flog10_def)
  moreover have "rnd_even 1 = 1" using rnd_even_int [of 1] by simp
  ultimately have "dec_pick 1 1 = Some (1, 0)" by (simp add: dec_pick_def dec_round_def dec_value_def r1)
  moreover have "[1..<18] = 1 # [2..<18]" by (simp add: upt_conv_Cons)
  ultimately have "shortest_dec 1 = (1, 0)" by (simp add: shortest_dec_def)
  moreover have "strip_zeros 1 0 = (1, 0)" by (subst strip_zeros.simps) simp
  ultimately show ?thesis using d1 by (simp add: repr_pos_def dtoa_shortest_def fmt_repr_def)
qed

lemma py_float_one: "py_float ''1.0'' = Some (Fval 1)"
proof -
  have r1: "round_f64 1 = Fval 1"
    using round_rate(1) [of 1] by (simp add: f64_nearest_one power_int_minus)
  have "parse_decimal ''1.0'' = Some 1"
    by (simp add: parse_decimal_def parse_unsigned_def parse_digits_def is_dec_digit_def
        digits_val_def digit_val_def)
  then show ?thesis using r1 by (simp add: py_float_def)
qed

section \<open>Properties\<close>

text \<open>C18 (functional): with fewer than \<open>2^53\<close> test samples, the accuracy line main
  prints on line 31 is the text \<open>1.0\<close> exactly when every prediction equals its label:
  no accuracy below one is printed as \<open>1.0\<close> (as a fixed number of digits would do
  for \<open>(n - 1) / n\<close> with large \<open>n\<close>).\<close>

theorem print_accuracy_one_iff:
  assumes "length raw = length labels" "0 < length labels" "length labels < 2 ^ 53"
    and "\<forall>row \<in> set raw. row \<noteq> [] \<and> length row \<le> 2 ^ 64"
  shows "\<exists>v. score labels raw = Inr v \<and>
           (render_out (AccuracyLine v) = ''1.0'' \<longleftrightarrow>
            (\<forall>i < length labels. first_max (raw ! i) = unat (labels ! i)))"
proof -
  let ?m = "matches (map first_max raw) (map unat labels)"
  let ?n = "length labels"
  let ?v = "Fval (of_nat ?m / of_nat ?n)"
  have m: "?m \<le> ?n"
    using length_filter_le [of "\<lambda>(p, l). p = l" "zip (map first_max raw) (map unat labels)"]
    by (simp add: matches_def)
  have sc: "score labels raw = Inr ?v"
    using score_spec_accuracy [OF assms(1,2) _ assms(4)] assms(1,3) by (simp add: spec_accuracy_def)
  obtain d where d: "true_div_f64 (int ?m) ?n = Fval d" "d = 1 \<longleftrightarrow> ?m = ?n"
    using true_div_f64_rate_props [OF assms(2,3) m] by blast
  have t: "to_f64 ?v = Fval d" using to_f64_rate [OF assms(2,3) m] d(1) by simp
  have "render_out (AccuracyLine ?v) = ''1.0'' \<longleftrightarrow> d = 1"
  proof
    assume "render_out (AccuracyLine ?v) = ''1.0''"
    then have "py_float ''1.0'' = Some (Fval d)" using to_f64_repr_roundtrip [of ?v] t by simp
    then show "d = 1" using py_float_one by simp
  next
    assume "d = 1"
    then show "render_out (AccuracyLine ?v) = ''1.0''" using t repr_f64_one by simp
  qed
  moreover have "?m = ?n \<longleftrightarrow> (\<forall>i < ?n. first_max (raw ! i) = unat (labels ! i))"
    using matches_length_iff [of "map first_max raw" "map unat labels"] assms(1) by simp
  ultimately show ?thesis using sc d(2) by blast
qed

theorem print_accuracy_one_iff_witness:
  "\<exists>v. score [1, 0 :: u8] [[0, 1], [1, 0 :: rat]] = Inr v \<and> render_out (AccuracyLine v) = ''1.0''"
  using print_accuracy_one_iff [of "[[0, 1], [1, 0 :: rat]]" "[1, 0 :: u8]"]
  by (simp add: first_max_def less_Suc_eq)

text \<open>C20 (functional): the digits \<open>repr\<close> prints for a positive double are the
  fewest possible: every decimal \<open>n * 10^j\<close> that reads back as the same double has
  at least as many digits in \<open>n\<close>.\<close>

theorem repr_fewest_digits:
  assumes d: "0 < d" "round_f64 d = Fval d" and x: "round_f64 (of_int n * 10 powi j) = Fval d"
  shows "length (fst (dtoa_shortest d)) \<le> length (dec_digits (nat \<bar>n\<bar>))"
proof -
  obtain p0 where p0: "1 \<le> p0" "p0 \<le> 17" "dec_pick p0 d = Some (shortest_dec d)"
    "\<forall>p. 1 \<le> p \<longrightarrow> p < p0 \<longrightarrow> dec_pick p d = None"
    using shortest_dec_first [OF d] by blast
  obtain m k where sd: "shortest_dec d = (m, k)" by (cases "shortest_dec d")
  have b: "0 \<le> m" "m \<le> 10 ^ p0" using dec_pick_bounds [OF p0(3) d(1) p0(1)] sd by simp_all
  then have "nat m \<le> 10 ^ p0" by (simp add: nat_le_iff)
  then have "length (dec_digits (fst (strip_zeros (nat m) k))) \<le> p0"
    using p0(1) by (rule strip_zeros_digits)
  moreover have "fst (dtoa_shortest d) = dec_digits (fst (strip_zeros (nat m) k))"
    by (simp add: dtoa_shortest_def sd split: prod.split)
  ultimately have le: "length (fst (dtoa_shortest d)) \<le> p0" by simp
  let ?P = "length (dec_digits (nat \<bar>n\<bar>))"
  have "p0 \<le> ?P"
  proof (rule ccontr)
    assume lt: "\<not> p0 \<le> ?P"
    have "0 < of_int n * (10::rat) powi j" using round_f64_pos_arg [OF x d(1)] .
    moreover have "0 < (10::rat) powi j" by simp
    ultimately have "(0::rat) < of_int n" by (simp add: zero_less_mult_iff)
    then have "0 < nat \<bar>n\<bar>" by simp
    then have "nat \<bar>n\<bar> < 10 ^ ?P" using dec_digits_bounds by blast
    then have n: "\<bar>n\<bar> < 10 ^ ?P" by (simp add: nat_less_iff)
    have P1: "1 \<le> ?P" using dec_digits_ne [of "nat \<bar>n\<bar>"] by (cases "dec_digits (nat \<bar>n\<bar>)") simp_all
    have "dec_pick ?P d \<noteq> None" by (rule dec_pick_short [OF d x n P1])
    then show False using p0(4) P1 lt by simp
  qed
  then show ?thesis using le by simp
qed

theorem repr_fewest_digits_witness:
  "length (fst (dtoa_shortest 1)) \<le> length (dec_digits (nat \<bar>1\<bar>))"
proof -
  have r1: "round_f64 1 = Fval 1"
    using round_rate(1) [of 1] by (simp add: f64_nearest_one power_int_minus)
  show ?thesis using repr_fewest_digits [of 1 1 0] r1 by simp
qed

end
