(* ===== verification/Spec2Isabelle.thy ===== *)
theory Spec2Isabelle
  imports Main_Steps Float_Scores Module Double Console
begin

text \<open>
  \<^bold>\<open>A verification model of the CIFAR-10 experiment script.\<close>

  \<^bold>\<open>The program.\<close> src/python/experiments/cifar_nn/main.py is the repository's only
  source file under src/. Executed, it imports the loader module, \<open>sys\<close>, \<open>os\<close> and
  numpy (lines 1--4), appends the extension's build directory to \<open>sys.path\<close> and
  imports the extension \<open>cifar_nn_py\<close> (lines 6--7), and, run as a script, calls
  \<open>main\<close> (lines 34--35). \<open>main\<close> (lines 10--31) composes four parts:
  \<^enum> the dataset loader \<open>data_loading.cifar10(path)\<close> (lines 11--12), which reads the
    five training shards and the test shard of the CIFAR-10 binary distribution
    from \<open>./../../resources/cifar10\<close>;
  \<^enum> the reshape of both flat splits to \<open>[sample, channel, row, column]\<close> with the
    fixed shapes \<open>(50000, 3, 32, 32)\<close> and \<open>(10000, 3, 32, 32)\<close> (lines 13--14);
  \<^enum> the external model module \<open>cifar_nn_py\<close> (C++, outside src/): dataset and network
    constructors, \<open>train(net, ds, 10)\<close>, \<open>net.forward(test_images)\<close> (lines 16--23);
  \<^enum> the scoring of lines 25--29: row-wise \<open>np.argmax\<close>, \<open>test_labels - res\<close>,
    \<open>np.where(diff == 0, 1, 0)\<close>, \<open>np.sum(sim)/sim.shape[0]\<close>;
  with four \<open>print\<close> calls (lines 17, 19, 24, 31). The parts interact only by
  passing values along this single pass; errors are exceptions that end the run.

  \<^bold>\<open>The theories.\<close>
  \<^item> \<open>Prelude\<close>: the numpy element types (\<open>u8 = 8 word\<close>, \<open>i64 = 64 word\<close>), the
    \<open>error\<close> datatype (one constructor per exception of the run), the error-sum bind
    \<open>ebind\<close> and the fail-fast \<open>map_err\<close>, fixed-width chunking \<open>split_n\<close> with its
    index and round-trip lemmas, first-occurrence \<open>index_of\<close>, and the word facts of
    the \<open>uint8 \<rightarrow> int64\<close> promotion.
  \<^item> \<open>Reshape\<close>: \<open>np_reshape4\<close> (C-order reshape of a flat list, \<open>ShapeMismatch\<close> on an
    element-count mismatch) and \<open>reshape_rows\<close> (reshape of a 2-D array, whose
    row-major order is the concatenation of its rows); \<open>has_shape4\<close>, \<open>flatten4\<close>.
    Lemmas: the result has the requested shape, the element at \<open>[s,c,y,x]\<close> is the
    flat element at \<open>s*C*H*W + c*H*W + y*W + x\<close>, and both round trips with the
    row-major flattening.
  \<^item> \<open>Scoring\<close>: \<open>argmax_from\<close>/\<open>np_argmax\<close>/\<open>argmax_rows\<close> (numpy's one-pass argmax loop,
    first strict maximum kept), \<open>np_sub\<close> (\<open>int64\<close> subtraction with the broadcasting
    of a length-1 operand, \<open>BroadcastMismatch\<close> otherwise), \<open>np_where_eq0\<close>, \<open>np_sum\<close>
    (wrapping \<open>int64\<close> sum), \<open>true_div\<close> (Python's true division, NaN and infinities on a
    zero divisor), composed as \<open>score\<close>; and the design's \<open>first_max\<close>, \<open>argmax_ref\<close>,
    \<open>matches\<close>, \<open>spec_accuracy\<close>. Lemmas: the scan equals the reference argmax; the
    score refines the design's accuracy; the score lies in \<open>[0, 1]\<close> or is NaN; the
    exact error conditions; the concrete scenarios of the design.
  \<^item> \<open>Shard\<close>: the loader, modelled from the design (the module is not under src/):
    \<open>path_join\<close> (\<open>os.path.join\<close>), \<open>main_data_path\<close>, the \<open>cifar_config\<close> record and
    \<open>cifar10_config\<close>, \<open>decode_shard\<close> (numpy-style view of the bytes as records,
    \<open>CorruptShard\<close> when the length is not a multiple of the record size),
    \<open>decode_records\<close> (the same as a record-by-record parser, proved equal),
    \<open>encode_shard\<close>, \<open>read_file\<close> (\<open>DatasetNotFound\<close> on a missing file),
    \<open>load_shard\<close>, \<open>load_cifar10\<close>. The file system is a map from paths to byte lists.
    Lemmas: both round trips of decode and encode, the byte layout of each record,
    the success condition of the load, the file order of the splits.
  \<^item> \<open>Pipeline\<close>: the \<open>collaborator\<close> record (the interface of \<open>cifar_nn_py\<close>: dataset
    constructor, network, \<open>train\<close> returning the trained network, \<open>forward\<close>, and the
    \<open>repr\<close>s printed), its \<open>forward_contract\<close> (one non-empty score row per sample),
    standard output as a list of \<open>out\<close> lines threaded with errors by \<open>tbind\<close>,
    \<open>main_load\<close> (lines 11--12), \<open>main_after_load\<close> (lines 13--31) and \<open>main_run\<close>
    (lines 10--31); and the design's \<open>run_experiment\<close>. Lemmas: \<open>main\<close> refines
    \<open>run_experiment\<close> when the dataset has 50000/10000 samples, and raises
    \<open>ShapeMismatch\<close> otherwise; a failing run prints no accuracy; a completing run
    prints its four lines in order; the load's round trip, success condition, file
    order and record layout.
  \<^item> \<open>Main_Steps\<close>: \<open>main\<close> statement by statement, a second reading of the same
    lines kept as a cross-check of \<open>main_run\<close> (its lemmas relate the two models and
    are not claims about the program). \<open>pc\<close> is the program point
    (the statement about to run, with the locals live there), \<open>mstate\<close> adds the
    lines printed, \<open>pc_step\<close> runs one statement of lines 11--31 (\<open>or_raise\<close> for one
    that may raise), \<open>main_next\<close> one machine step, \<open>main_reach\<close> the reachable states
    (inductive), \<open>main_exec\<close> a run with a step budget, \<open>main_from\<close> the rest of
    \<open>main\<close> from a program point as one traced computation. Lemmas: every step
    decreases the count of statements left (\<open>pc_rank\<close>), so a run ends; the
    invariant that a reachable state's output followed by the rest of \<open>main\<close> is
    \<open>main_run\<close>; the run to the end is \<open>main_run\<close>; from every reachable state an end is
    reachable; the accuracy is printed only once \<open>main\<close> has returned.
  \<^item> \<open>Float_Scores\<close>: \<open>float32\<close> scores (\<open>f32\<close>: finite, infinities, NaN), IEEE's
    \<open>\<le>\<close> (\<open>ieee_le\<close>), numpy's floating-point argmax loop that stops at the first NaN
    (\<open>argmax_f32_from\<close>, \<open>np_argmax_f32\<close>), and \<open>f32\<close> as a \<open>linorder\<close> with NaN last.
    Lemmas: the loop equals the ordered argmax of \<open>Scoring\<close> under that order (so
    \<open>score\<close> and \<open>main\<close> apply to float scores as they are), a row with a NaN predicts
    its first NaN, all-NaN scores give the share of label-0 samples.
  \<^item> \<open>Module\<close>: the module level (lines 1--7, 34--35): the \<open>interp\<close> record
    (\<open>sys.path\<close>, \<open>sys.modules\<close>, working directory), \<open>find_module\<close> and
    \<open>import_module\<close> (a cached module, or the first \<open>sys.path\<close> entry holding it,
    relative entries resolved against the working directory, \<open>ModuleNotFound\<close>
    otherwise), \<open>extension_dir\<close> and \<open>sys_path_append\<close> (line 6), \<open>module_imports\<close>
    (lines 1--7 in order) and \<open>run_script\<close> (the \<open>__main__\<close> guard). Lemmas: which
    copy of the extension \<open>main\<close> runs with; an unbuilt extension raises before any
    output; imported as a library the file prints nothing; the import phase only
    extends the interpreter state (\<open>imports_sound\<close>).
  \<^item> \<open>Double\<close>: the binary64 division of line 29 as numpy performs it:
    \<open>rnd_even\<close> (round half to even), \<open>flog2\<close> (binary exponent from \<open>bitlen\<close>),
    \<open>f64_quantum\<close> (spacing of doubles, subnormal floor \<open>2^-1074\<close>), \<open>f64_nearest\<close>,
    \<open>round_f64\<close> (with overflow to infinity), \<open>f64_div\<close> (IEEE division),
    \<open>true_div_f64\<close> (line 29) and \<open>score_f64\<close> (lines 25--29 in doubles). Lemmas:
    integers below \<open>2^53\<close> convert exactly, so the double accuracy is the single
    rounding of \<open>score\<close>'s exact value; a match rate is within \<open>2^-53\<close> relative
    error, in \<open>[0, 1]\<close>, and 1.0 exactly when every prediction is right.
  \<^item> \<open>Console\<close>: what \<open>print\<close> writes (lines 17, 19, 24, 31): \<open>render_out\<close> is
    \<open>str\<close> of each printed value and \<open>stdout_text\<close> the text of a run. \<open>str\<close> of the
    shape tuple is \<open>repr_shape2\<close> over \<open>dec_digits\<close>; \<open>str\<close> of the \<open>float64\<close> accuracy
    is CPython's shortest round-trip \<open>repr\<close> (\<open>repr_f64\<close>): \<open>shortest_dec\<close> tries
    1 to 17 significant digits and keeps the first length at which \<open>dec_pick\<close>
    finds a decimal whose nearest double is the value (the nearest decimal of that
    length, \<open>dec_round\<close>, rounding digits half to even, else its neighbour on the
    other side, which matters below a power of two where the doubles are twice as
    dense); \<open>dtoa_shortest\<close> returns the digits without trailing zeros
    (\<open>strip_zeros\<close>) and the decimal point position, as \<open>_Py_dg_dtoa\<close> does; \<open>fmt_repr\<close>
    lays them out as \<open>format_float_short\<close> does (scientific when the decimal point
    position is at most -4 or above 16).
    \<open>py_float\<close> (Python's \<open>float()\<close>: the exact decimal rounded by \<open>round_f64\<close>)
    and \<open>parse_shape2\<close> read the text back. Lemmas: 17 digits always suffice (a
    decimal within a quarter or half spacing of a double rounds to it, and
    \<open>2^54 < 2 * 10^16\<close>); binary64 rounding is odd-symmetric, idempotent and
    monotone, so the rationals that read back as a double form an interval; so
    every double's \<open>repr\<close> reads back as that double, no decimal with fewer digits
    does, and the shape tuple reads back as the shape.
  \<^item> This theory: fixtures (a blank image, full-size shards, the design's scenario
    shard), the witnesses of the pipeline's theorems, and the end-to-end theorems
    that span the components: \<open>main\<close> run on shard files written from records ends
    as the design's experiment on those records, and a completed run's standard
    output reads back as the shape of the scores and the double of the accuracy.

  \<^bold>\<open>Bounds.\<close> The \<open>int64\<close> arithmetic of the scoring is kept at its width. The
  theorems that read the mask's sum as a count assume fewer than \<open>2^63\<close> samples (the
  sum cannot wrap) and fewer than \<open>2^64\<close> classes (an argmax index converts to \<open>int64\<close>
  exactly); both hold for any array that fits in memory. Every function is
  structurally recursive, or terminates by a measure: the record parser by the
  length of the remaining bytes, \<open>main_from\<close> by the statements left. The only
  budget is that of \<open>main_exec\<close>: 15 steps, one per statement of lines 11--31 that
  the machine runs, and \<open>pc_rank\<close> shows that it is enough from every state. The
  \<open>repr\<close> search tries at most 17 digit counts, and the theorem that 17 digits
  always round-trip shows that its fallback is never the answer.

  \<^bold>\<open>Not modelled.\<close> The network, its training and its forward pass (C++ behind
  \<open>cifar_nn_py\<close>) are parameters of the model, constrained only by
  \<open>forward_contract\<close>: they are C++ outside src/, and the design specifies only
  their interface. A finite \<open>float32\<close> score is the rational it denotes (all that
  argmax compares). The accuracy is carried through \<open>main\<close> as the exact rational
  (\<open>score\<close>); its binary64 value is \<open>score_f64\<close>, proved to be the rounding of it.
  The text printed by \<open>print(ds)\<close> and \<open>print(net)\<close> is the collaborator's \<open>__str__\<close>,
  a parameter like the rest of the C++ module. \<open>print\<close>'s writes are the text of
  the lines in order; buffering and the encoding of \<open>sys.stdout\<close> are not modelled,
  and the formatting of negative zero (no value of the run is \<open>-0.0\<close>) is left out.
  Which directory holds which module is a
  parameter (the file system is not searched for \<open>.py\<close>/\<open>.so\<close> files), and the
  import of a dotted name is one search for its top-level package.
  A score array of shape \<open>(0, 0)\<close> cannot be told from \<open>(0, k)\<close> in the list
  representation: numpy raises on the former, the model returns no predictions.

  \<^bold>\<open>Plan.\<close> Built in this order, most important behaviour first: the scoring
  (lines 25--29) and its refinement of the design's accuracy; the reshape (lines
  13--14); the loader as the design describes it; \<open>main\<close> with its collaborator
  interface and output; the end-to-end composition; then \<open>main\<close> as a stage machine
  with its invariant, termination and liveness; float scores with NaN; the module
  level and the extension's import; the loader's first error; the binary64
  division of line 29; the text \<open>print\<close> writes. What remains outside is listed
  under Not modelled.

  \<^bold>\<open>Findings.\<close> The sample counts are hard-coded (lines 13--14), so any dataset
  other than the full CIFAR-10 sizes, including the design's own 4-record scenario,
  raises \<open>ShapeMismatch\<close>; the design's scenario expects 0.25 where its own accuracy
  definition and the code give 1/2; the subtraction on line 27 broadcasts a single
  prediction against all labels instead of raising a length mismatch; an empty test
  split yields NaN, which the design's \<open>[0, 1]\<close> range does not cover; NaN scores
  make every prediction class 0 and print the share of label-0 samples without an
  error; the build directory is appended last to \<open>sys.path\<close>, so an installed copy
  of the extension shadows the fresh build, and it is relative to the working
  directory; with several bad shard files the loader reports the first in file
  order; the design promises a scalar accuracy and says nothing of output, while
  the code prints the scores' shape as an extra line and the accuracy as the
  shortest decimal that reads back as the double (\<open>1.0\<close> for a perfect score).
\<close>

section \<open>Fixtures\<close>

definition blank_image :: "u8 list" where
  "blank_image = replicate 3072 0"

definition full_images :: "u8 list list" where
  "full_images = replicate 10000 blank_image"

definition full_labels :: "u8 list" where
  "full_labels = replicate 10000 3"

definition fs_full :: filesystem where
  "fs_full = (\<lambda>_. Some (encode_shard (full_images, full_labels)))"

definition scenario_test_shard :: "u8 list list \<times> u8 list" where
  "scenario_test_shard = (replicate 4 blank_image, [3, 3, 7, 1])"

definition fs_scenario :: filesystem where
  "fs_scenario p =
     (if p = path_join main_data_path ''test_batch.bin'' then Some (encode_shard scenario_test_shard)
      else Some (encode_shard (full_images, full_labels)))"

text \<open>A data directory with \<open>data_batch_2.bin\<close> missing and \<open>data_batch_4.bin\<close>
  truncated to one byte; every other file is an empty shard.\<close>

definition fs_two_bad :: filesystem where
  "fs_two_bad p =
     (if p = path_join main_data_path ''data_batch_2.bin'' then None
      else if p = path_join main_data_path ''data_batch_4.bin'' then Some [0]
      else Some [])"

definition small_shard :: "u8 list list \<times> u8 list" where
  "small_shard = ([replicate 3072 7], [1])"

section \<open>Witnesses of the pipeline theorems\<close>

lemma main_load_fs_full:
  "main_load fs_full =
     Inr (full_images @ full_images @ full_images @ full_images @ full_images,
          full_labels @ full_labels @ full_labels @ full_labels @ full_labels,
          full_images, full_labels)"
proof -
  show ?thesis
    using load_cifar10_encoded [of cifar10_config fs_full "\<lambda>_. (full_images, full_labels)"]
    by (simp add: main_load_def cifar10_config_def fs_full_def full_images_def full_labels_def
        blank_image_def)
qed

lemma mock_experiment_full:
  "run_experiment mock_collaborator
     (full_images @ full_images @ full_images @ full_images @ full_images)
     (full_labels @ full_labels @ full_labels @ full_labels @ full_labels)
     (full_images) (full_labels) 10 = Inr 1"
proof -
  let ?tri = "full_images @ full_images @ full_images @ full_images @ full_images"
  let ?row = "[0, 0, 0, 1, 0, 0, 0, 0, 0, 0 :: rat]"
  have rows: "\<forall>img \<in> set ?tri. length img = 3072" "\<forall>img \<in> set (full_images). length img = 3072"
    by (simp_all add: full_images_def full_labels_def blank_image_def)
  obtain train_t where r1: "reshape_rows ?tri (length ?tri, 3, 32, 32) = Inr train_t"
    using reshape_rows_Inr [of ?tri 3 32 32] rows(1) by auto
  obtain test_t where r2: "reshape_rows (full_images) (10000, 3, 32, 32) = Inr test_t"
    and lt: "length test_t = 10000"
    using reshape_rows_fixed [OF rows(2)] by (auto simp: full_images_def full_labels_def)
  have fw: "map (\<lambda>_. ?row) test_t = replicate 10000 ?row"
    using lt by (simp add: map_replicate_const)
  have "map_err argmax_ref (replicate 10000 ?row) = Inr (map (\<lambda>_. 3) (replicate 10000 ?row))"
    by (rule map_err_all_Inr) (simp add: argmax_ref_def first_max_def)
  then have am: "map_err argmax_ref (replicate 10000 ?row) = Inr (replicate 10000 3)"
    by simp
  have sa: "spec_accuracy (replicate 10000 3) (map unat (full_labels)) = Inr 1"
    by (simp add: spec_accuracy_def full_images_def full_labels_def matches_self)
  have "length (full_images) = 10000" by (simp add: full_images_def full_labels_def)
  then show ?thesis
    using r1 r2 fw am sa by (simp add: run_experiment_def mock_collaborator_def)
qed

lemma mock_run_full:
  "snd (main_run mock_collaborator fs_full) = Inr () \<and>
   last (fst (main_run mock_collaborator fs_full)) = AccuracyLine (Fval 1)"
proof -
  note ld = main_load_fs_full
  note sh = main_load_shapes [OF ld]
  have run: "main_run mock_collaborator fs_full =
               main_after_load mock_collaborator
                 (full_images @ full_images @ full_images @ full_images @ full_images,
                  full_labels @ full_labels @ full_labels @ full_labels @ full_labels,
                  full_images, full_labels)"
    using ld by (simp add: main_run_def)
  have c: "length (full_images @ full_images @ full_images @ full_images @ full_images) = 50000"
    "length (full_images) = 10000"
    by (simp_all add: full_images_def full_labels_def)
  have fc: "forward_contract mock_collaborator"
    by (auto simp: forward_contract_def mock_collaborator_def)
  show ?thesis
    using main_after_load_refines [OF c _ _ _ fc] sh mock_experiment_full run by simp
qed

theorem main_run_refines_witness:
  "\<exists>tri trl tei tel. main_load fs_full = Inr (tri, trl, tei, tel) \<and>
     length tri = 50000 \<and> length tei = 10000 \<and> forward_contract mock_collaborator \<and>
     snd (main_run mock_collaborator fs_full) = Inr () \<and>
     last (fst (main_run mock_collaborator fs_full)) = AccuracyLine (Fval 1)"
proof -
  note ld = main_load_fs_full
  have c: "length (full_images @ full_images @ full_images @ full_images @ full_images) = 50000"
    "length (full_images) = 10000"
    by (simp_all add: full_images_def full_labels_def)
  have fc: "forward_contract mock_collaborator"
    by (auto simp: forward_contract_def mock_collaborator_def)
  from main_run_refines [OF ld c fc] mock_experiment_full
  have "snd (main_run mock_collaborator fs_full) = Inr () \<and>
        last (fst (main_run mock_collaborator fs_full)) = AccuracyLine (Fval 1)"
    by simp
  with ld c fc show ?thesis by blast
qed

theorem main_run_output_order_witness:
  "\<exists>s1 s2 n k acc. fst (main_run mock_collaborator fs_full) = [Line s1, Line s2, ShapeLine n k, AccuracyLine acc]"
  using main_run_output_order [of mock_collaborator fs_full] mock_run_full by blast

theorem main_run_no_partial_accuracy_witness:
  "AccuracyLine (Fval 1) \<notin> set (fst (main_run mock_collaborator (\<lambda>_. None)))"
proof -
  have "snd (main_run mock_collaborator (\<lambda>_. None)) = Inl (DatasetNotFound ''data_batch_1.bin'')"
    by (simp add: main_run_def main_load_def load_cifar10_def cifar10_config_def load_shard_def
        read_file_def)
  then show ?thesis by (rule main_run_no_partial_accuracy)
qed

theorem main_run_wrong_counts_witness:
  "main_run mock_collaborator fs_scenario = ([], Inl ShapeMismatch)"
proof -
  let ?recs = "\<lambda>n. if n = ''test_batch.bin'' then scenario_test_shard else (full_images, full_labels)"
  have "load_cifar10 cifar10_config fs_scenario =
          Inr (concat (map (fst \<circ> ?recs) (train_files cifar10_config)),
               concat (map (snd \<circ> ?recs) (train_files cifar10_config)),
               fst (?recs (test_file cifar10_config)), snd (?recs (test_file cifar10_config)))"
    by (rule load_cifar10_encoded)
      (simp add: cifar10_config_def fs_scenario_def full_images_def full_labels_def scenario_test_shard_def
        blank_image_def main_data_path_def path_join_def)
  then have ld: "main_load fs_scenario =
          Inr (concat (map (fst \<circ> ?recs) (train_files cifar10_config)),
               concat (map (snd \<circ> ?recs) (train_files cifar10_config)),
               fst scenario_test_shard, snd scenario_test_shard)"
    by (simp add: main_load_def cifar10_config_def)
  have "length (fst scenario_test_shard) \<noteq> 10000" by (simp add: scenario_test_shard_def)
  then show ?thesis using main_run_wrong_counts [OF ld] by blast
qed

theorem main_load_roundtrip_witness:
  "main_load (\<lambda>_. Some (encode_shard small_shard)) =
     Inr ([replicate 3072 7, replicate 3072 7, replicate 3072 7, replicate 3072 7, replicate 3072 7],
          [1, 1, 1, 1, 1], [replicate 3072 7], [1])"
  using main_load_roundtrip [of "\<lambda>_. Some (encode_shard small_shard)" "\<lambda>_. small_shard"]
  by (simp add: cifar10_config_def small_shard_def)

theorem main_load_ok_iff_witness:
  "(\<exists>r. main_load (\<lambda>_. Some []) = Inr r) \<and> \<not> (\<exists>r. main_load (\<lambda>_. Some [0]) = Inr r)"
proof
  show "\<exists>r. main_load (\<lambda>_. Some []) = Inr r"
    by (subst main_load_ok_iff) simp
  show "\<not> (\<exists>r. main_load (\<lambda>_. Some [0]) = Inr r)"
    by (subst main_load_ok_iff) auto
qed

theorem main_load_order_witness:
  "main_load (\<lambda>_. Some []) = Inr ([], [], [], []) \<and> encode_shard ([], []) = []"
proof -
  have ld: "main_load (\<lambda>_. Some []) = Inr ([], [], [], [])"
    by (simp add: main_load_def load_cifar10_def cifar10_config_def load_shard_def read_file_def
        decode_shard_def)
  from main_load_order [OF ld] ld show ?thesis by simp
qed

theorem main_load_test_layout_witness:
  "\<exists>tri trl tei tel. main_load (\<lambda>_. Some (encode_shard small_shard)) = Inr (tri, trl, tei, tel) \<and>
     tel ! 0 = encode_shard small_shard ! 0 \<and> tei ! 0 ! 5 = encode_shard small_shard ! 6"
proof -
  have "load_cifar10 cifar10_config (\<lambda>_. Some (encode_shard small_shard)) =
          Inr (concat (map (fst \<circ> (\<lambda>_. small_shard)) (train_files cifar10_config)),
               concat (map (snd \<circ> (\<lambda>_. small_shard)) (train_files cifar10_config)),
               fst small_shard, snd small_shard)"
    by (rule load_cifar10_encoded) (simp add: cifar10_config_def small_shard_def)
  then have ld: "main_load (\<lambda>_. Some (encode_shard small_shard)) =
      Inr (concat (map (fst \<circ> (\<lambda>_. small_shard)) (train_files cifar10_config)),
           concat (map (snd \<circ> (\<lambda>_. small_shard)) (train_files cifar10_config)),
           fst small_shard, snd small_shard)"
    by (simp add: main_load_def)
  have i: "0 < length (snd small_shard)" by (simp add: small_shard_def)
  from main_load_test_layout [OF ld _ i, of "encode_shard small_shard"]
  have "snd small_shard ! 0 = encode_shard small_shard ! 0 \<and>
        fst small_shard ! 0 ! 5 = encode_shard small_shard ! 6"
    by simp
  with ld show ?thesis by blast
qed

section \<open>End to end\<close>

lemma length_concat_fst_recs:
  "\<forall>name \<in> set files. length (fst (recs name)) = k \<Longrightarrow>
   length (concat (map (fst \<circ> recs) files)) = length files * k"
  by (induction files) simp_all

text \<open>C23 (refinement): run on shard files written from records (five training
  shards and a test shard of 10000 records each), \<open>main\<close> ends as the design's
  experiment on those records: loader, reshape, collaborator and scoring together.\<close>

theorem main_on_written_shards:
  assumes files: "\<forall>name \<in> set (train_files cifar10_config @ [test_file cifar10_config]).
             fs (path_join main_data_path name) = Some (encode_shard (recs name)) \<and>
             length (fst (recs name)) = length (snd (recs name)) \<and>
             (\<forall>img \<in> set (fst (recs name)). length img = 3072)"
    and sizes: "\<forall>name \<in> set (train_files cifar10_config). length (fst (recs name)) = 10000"
      "length (fst (recs (test_file cifar10_config))) = 10000"
    and contract: "forward_contract col"
  shows "snd (main_run col fs) =
           map_sum id (\<lambda>_. ())
             (run_experiment col (concat (map (fst \<circ> recs) (train_files cifar10_config)))
                (concat (map (snd \<circ> recs) (train_files cifar10_config)))
                (fst (recs (test_file cifar10_config))) (snd (recs (test_file cifar10_config))) 10)"
proof -
  let ?tri = "concat (map (fst \<circ> recs) (train_files cifar10_config))"
  let ?trl = "concat (map (snd \<circ> recs) (train_files cifar10_config))"
  let ?tei = "fst (recs (test_file cifar10_config))"
  let ?tel = "snd (recs (test_file cifar10_config))"
  have ld: "main_load fs = Inr (?tri, ?trl, ?tei, ?tel)"
    unfolding main_load_def
    by (rule load_cifar10_encoded) (use files in \<open>simp add: cifar10_config_def\<close>)
  note sh = main_load_shapes [OF ld]
  have c: "length ?tri = 50000"
    using length_concat_fst_recs [OF sizes(1)] by (simp add: cifar10_config_def)
  have r1: "\<forall>img \<in> set ?tri. length img = 3072" and r2: "\<forall>img \<in> set ?tei. length img = 3072"
    and lab: "length ?tei = length ?tel"
    using sh by blast+
  have run: "main_run col fs = main_after_load col (?tri, ?trl, ?tei, ?tel)"
    using ld by (simp add: main_run_def)
  show ?thesis
    unfolding run by (rule conjunct1 [OF main_after_load_refines [OF c sizes(2) r1 r2 lab contract]])
qed

theorem main_on_written_shards_witness:
  "snd (main_run mock_collaborator fs_full) =
     map_sum id (\<lambda>_. ())
       (run_experiment mock_collaborator
          (concat (map (fst \<circ> (\<lambda>_. (full_images, full_labels))) (train_files cifar10_config)))
          (concat (map (snd \<circ> (\<lambda>_. (full_images, full_labels))) (train_files cifar10_config)))
          full_images full_labels 10)"
proof -
  have fc: "forward_contract mock_collaborator"
    by (auto simp: forward_contract_def mock_collaborator_def)
  have "snd (main_run mock_collaborator fs_full) =
     map_sum id (\<lambda>_. ())
       (run_experiment mock_collaborator
          (concat (map (fst \<circ> (\<lambda>_. (full_images, full_labels))) (train_files cifar10_config)))
          (concat (map (snd \<circ> (\<lambda>_. (full_images, full_labels))) (train_files cifar10_config)))
          (fst ((\<lambda>_. (full_images, full_labels)) (test_file cifar10_config)))
          (snd ((\<lambda>_. (full_images, full_labels)) (test_file cifar10_config))) 10)"
    by (rule main_on_written_shards [where recs = "\<lambda>_. (full_images, full_labels)", OF _ _ _ fc])
      (simp_all add: cifar10_config_def fs_full_def full_images_def full_labels_def blank_image_def)
  then show ?thesis by simp
qed

text \<open>C19 (functional): when main completes, the text it writes to standard output
  is four lines: the dataset's and the network's strings, then a line that reads
  back as the tuple \<open>(10000, k)\<close> of the scores' shape, and last a line that
  \<open>float()\<close> reads back as the double nearest the design's accuracy.\<close>

theorem main_stdout_reads_back:
  assumes "main_load fs = Inr (tri, trl, tei, tel)" "length tri = 50000" "length tei = 10000"
    and "forward_contract col" "run_experiment col tri trl tei tel 10 = Inr a"
  shows "\<exists>s1 s2 t3 t4 k.
           stdout_text (fst (main_run col fs)) =
             s1 @ ''\<newline>'' @ s2 @ ''\<newline>'' @ t3 @ ''\<newline>'' @ t4 @ ''\<newline>'' \<and>
           parse_shape2 t3 = Some (10000, k) \<and> py_float t4 = Some (to_f64 (Fval a))"
proof -
  obtain s1 s2 k where
    "fst (main_run col fs) = [Line s1, Line s2, ShapeLine 10000 k, AccuracyLine (Fval a)]"
    using main_run_printed [OF assms] by blast
  then have "stdout_text (fst (main_run col fs)) =
      s1 @ ''\<newline>'' @ s2 @ ''\<newline>'' @ repr_shape2 10000 k @ ''\<newline>'' @
      repr_f64 (to_f64 (Fval a)) @ ''\<newline>''"
    by (simp add: stdout_text_def)
  then show ?thesis using parse_shape2_repr [of 10000 k] to_f64_repr_roundtrip [of "Fval a"] by blast
qed

theorem main_stdout_reads_back_witness:
  "\<exists>s1 s2 t3 t4 k.
     stdout_text (fst (main_run mock_collaborator fs_full)) =
       s1 @ ''\<newline>'' @ s2 @ ''\<newline>'' @ t3 @ ''\<newline>'' @ t4 @ ''\<newline>'' \<and>
     parse_shape2 t3 = Some (10000, k) \<and> py_float t4 = Some (to_f64 (Fval 1))"
proof -
  have c: "length (full_images @ full_images @ full_images @ full_images @ full_images) = 50000"
    "length (full_images) = 10000"
    by (simp_all add: full_images_def full_labels_def)
  have fc: "forward_contract mock_collaborator"
    by (auto simp: forward_contract_def mock_collaborator_def)
  show ?thesis by (rule main_stdout_reads_back [OF main_load_fs_full c fc mock_experiment_full])
qed

section \<open>Witnesses of the stage machine\<close>

lemma mock_run_full_output:
  "AccuracyLine (Fval 1) \<in> set (fst (main_run mock_collaborator fs_full))"
proof -
  have run: "main_run mock_collaborator fs_full =
               main_after_load mock_collaborator
                 (full_images @ full_images @ full_images @ full_images @ full_images,
                  full_labels @ full_labels @ full_labels @ full_labels @ full_labels,
                  full_images, full_labels)"
    using main_load_fs_full by (simp add: main_run_def)
  then obtain s1 s2 n k acc where
    out: "fst (main_run mock_collaborator fs_full) = [Line s1, Line s2, ShapeLine n k, AccuracyLine acc]"
    using main_after_load_output mock_run_full by metis
  with mock_run_full show ?thesis by simp
qed

theorem main_reach_accuracy_returned_witness:
  "main_reach mock_collaborator fs_full (main_exec 15 mock_collaborator fs_full main_init) \<and>
   AccuracyLine (Fval 1) \<in> set (stdout (main_exec 15 mock_collaborator fs_full main_init)) \<and>
   pc (main_exec 15 mock_collaborator fs_full main_init) = Returned"
proof -
  let ?t = "main_exec 15 mock_collaborator fs_full main_init"
  have r: "main_reach mock_collaborator fs_full ?t" by (rule main_exec_init_reach)
  have "?t = \<lparr>pc = (case snd (main_run mock_collaborator fs_full) of Inl e \<Rightarrow> Raised e | Inr _ \<Rightarrow> Returned),
              stdout = fst (main_run mock_collaborator fs_full)\<rparr>"
    by (rule main_final_state [OF r main_exec_init_final])
  then have a: "AccuracyLine (Fval 1) \<in> set (stdout ?t)" using mock_run_full_output by simp
  from main_reach_accuracy_returned [OF r a] r a show ?thesis by simp
qed

theorem main_load_first_error_witness:
  "main_load fs_two_bad = Inl (DatasetNotFound ''data_batch_2.bin'')"
proof -
  have h: "\<exists>pre name post.
        [''data_batch_1.bin'', ''data_batch_2.bin'', ''data_batch_3.bin'', ''data_batch_4.bin'',
         ''data_batch_5.bin'', ''test_batch.bin''] = pre @ name # post \<and>
        (\<forall>n \<in> set pre. \<exists>bs. fs_two_bad (path_join main_data_path n) = Some bs \<and> length bs mod 3073 = 0) \<and>
        (case fs_two_bad (path_join main_data_path name) of
           None \<Rightarrow> DatasetNotFound ''data_batch_2.bin'' = DatasetNotFound name
         | Some bs \<Rightarrow> length bs mod 3073 \<noteq> 0 \<and> DatasetNotFound ''data_batch_2.bin'' = CorruptShard name)"
    by (rule exI [of _ "[''data_batch_1.bin'']"], rule exI [of _ "''data_batch_2.bin''"])
      (simp add: fs_two_bad_def main_data_path_def path_join_def)
  show ?thesis
    using h by (simp only: main_load_first_error)
qed

end
